theory Spec2Isabelle
  imports Complex_Main "HOL-Library.Log_Nat"
begin

section \<open>Numbers\<close>

text \<open>
  JavaScript numbers are IEEE-754 binary64 values. Positions, velocities, genes and
  fitness values are modelled as reals with exact arithmetic; \<open>NaN\<close> and the infinities
  are outside the model, except for the \<open>NaN\<close> that an \<open>undefined\<close> weight gives the
  output of the policy. The division of the model agrees with the division of JavaScript
  for a divisor that is not zero; the playfield dimensions of every game that is
  constructed are \<open>800\<close> and \<open>450\<close>.

  The two timers are the quantities whose rounding decides in which step something
  happens: the elapsed time \<open>totalTime\<close> decides how often the loop of \<open>Game.run\<close> is
  executed, and \<open>spawnTimer\<close> decides in which step an obstacle is spawned. So the
  accumulations \<open>this.totalTime += dt\<close> and \<open>this.spawnTimer += dt\<close> and the computation
  of the spawn delay are modelled in binary64: each operation gives the exact result
  rounded to 53 significant bits, ties to even (the exponent range is not bounded: the
  values that occur are far from its limits). The time increment of \<open>run\<close> is the
  binary64 value of \<open>1/60\<close>, and \<open>minSpawnDelay\<close> is the binary64 value of \<open>0.8\<close>.
\<close>

definition round_half_even :: "real \<Rightarrow> int" where
  "round_half_even v = (let n = \<lfloor>v\<rfloor>; r = v - of_int n in
     if r < 1 / 2 then n else if 1 / 2 < r then n + 1 else if even n then n else n + 1)"

text \<open>For \<open>0 < v\<close>, \<open>binade v\<close> is the exponent \<open>e\<close> with \<open>2\<^sup>e \<le> v < 2\<^sup>e\<^sup>+\<^sup>1\<close>.\<close>

definition binade :: "real \<Rightarrow> int" where
  "binade v = (if 1 \<le> v then bitlen \<lfloor>v\<rfloor> - 1 else - bitlen (\<lceil>1 / v\<rceil> - 1))"

definition binary64 :: "real \<Rightarrow> real" where
  "binary64 v = (if v = 0 then 0 else
     let u = 2 powi (binade \<bar>v\<bar> - 52)
     in sgn v * (of_int (round_half_even (\<bar>v\<bar> / u)) * u))"

definition js_add :: "real \<Rightarrow> real \<Rightarrow> real" where
  "js_add a c = binary64 (a + c)"

definition js_sub :: "real \<Rightarrow> real \<Rightarrow> real" where
  "js_sub a c = binary64 (a - c)"

definition js_mul :: "real \<Rightarrow> real \<Rightarrow> real" where
  "js_mul a c = binary64 (a * c)"

text \<open>Reading an array element: \<open>None\<close> stands for \<open>undefined\<close>.\<close>

definition js_index :: "'a list \<Rightarrow> nat \<Rightarrow> 'a option" where
  "js_index xs i = (if i < length xs then Some (xs ! i) else None)"

section \<open>Obstacles and the player\<close>

text \<open>
  The fields \<open>x\<close>, \<open>y\<close> of the source are \<open>pos_x\<close>, \<open>pos_y\<close> here, and \<open>this.b\<close> is
  \<open>bias\<close>. An obstacle and the player both carry the four rectangle fields, which is all
  that \<open>collidesWith\<close> reads.
\<close>

record rect =
  pos_x :: real
  pos_y :: real
  width :: real
  height :: real

record Obstacle = rect +
  speed :: real
  color :: string

record Player = rect +
  velocityY :: real
  gravity :: real
  jumpPower :: real
  grounded :: bool

definition update :: "Obstacle \<Rightarrow> real \<Rightarrow> Obstacle" where
  "update this deltaTime = this\<lparr>pos_x := pos_x this - speed this * deltaTime\<rparr>"

definition isOffScreen :: "Obstacle \<Rightarrow> bool" where
  "isOffScreen this = (pos_x this + width this < 0)"

definition collidesWith :: "'a rect_scheme \<Rightarrow> 'b rect_scheme \<Rightarrow> bool" where
  "collidesWith this player = (\<not> (
      pos_x player + width player < pos_x this \<or>
      pos_x player > pos_x this + width this \<or>
      pos_y player + height player < pos_y this \<or>
      pos_y player > pos_y this + height this))"

definition CANVAS_WIDTH :: real where "CANVAS_WIDTH = 800"
definition CANVAS_HEIGHT :: real where "CANVAS_HEIGHT = 450"
definition minSpawnDelay :: real where "minSpawnDelay = binary64 0.8"
definition maxSpawnDelay :: real where "maxSpawnDelay = 2.5"
definition obstacleSpeed :: real where "obstacleSpeed = 250"
definition obstacleSize_w :: real where "obstacleSize_w = 25"
definition obstacleSize_h :: real where "obstacleSize_h = 25"

definition new_Obstacle :: "real \<Rightarrow> real \<Rightarrow> real \<Rightarrow> real \<Rightarrow> real \<Rightarrow> Obstacle" where
  "new_Obstacle x0 y0 w h s =
     \<lparr>pos_x = x0, pos_y = y0, width = w, height = h, speed = s, color = ''red''\<rparr>"

section \<open>The random number generator\<close>

text \<open>
  \<open>Math.random()\<close> is a global generator. It is modelled by the sequence \<open>rnd\<close> of the
  values it returns, in the order of the calls, and a cursor counting the calls made so
  far. The generator promises values in \<open>[0, 1)\<close>.
\<close>

definition getRandomDelay :: "(nat \<Rightarrow> real) \<Rightarrow> nat \<Rightarrow> real \<times> nat" where
  "getRandomDelay rnd k =
     (js_add minSpawnDelay (js_mul (rnd k) (js_sub maxSpawnDelay minSpawnDelay)), Suc k)"

section \<open>The headless game\<close>

record Game =
  w1 :: "real option"
  w2 :: "real option"
  bias :: "real option"
  canvasWidth :: real
  canvasHeight :: real
  player :: Player
  obstacles :: "Obstacle list"
  spawnTimer :: real
  nextSpawnDelay :: real
  totalTime :: real
  gameOver :: bool
  randomCalls :: nat

text \<open>
  The constructor. A genome shorter than three genes leaves a weight \<open>undefined\<close>; the
  field \<open>randomCalls\<close> is the cursor of the generator after the constructor's one call.
\<close>

definition new_Game :: "(nat \<Rightarrow> real) \<Rightarrow> real list \<Rightarrow> nat \<Rightarrow> Game" where
  "new_Game rnd genome k =
     \<lparr>w1 = js_index genome 0, w2 = js_index genome 1, bias = js_index genome 2,
      canvasWidth = CANVAS_WIDTH, canvasHeight = CANVAS_HEIGHT,
      player = \<lparr>pos_x = CANVAS_WIDTH / 2 - 10, pos_y = CANVAS_HEIGHT - 30,
                width = 20, height = 20,
                velocityY = 0, gravity = 981, jumpPower = - 500, grounded = False\<rparr>,
      obstacles = [], spawnTimer = 0,
      nextSpawnDelay = fst (getRandomDelay rnd k),
      totalTime = 0, gameOver = False,
      randomCalls = snd (getRandomDelay rnd k)\<rparr>"

subsection \<open>One step\<close>

text \<open>1) Accumulate fitness (survival time).\<close>

definition step_time :: "real \<Rightarrow> Game \<Rightarrow> Game" where
  "step_time dt g = g\<lparr>totalTime := js_add (totalTime g) dt\<rparr>"

text \<open>2) Player physics and ground collision.\<close>

definition step_physics :: "real \<Rightarrow> Game \<Rightarrow> Game" where
  "step_physics dt g =
     (let p = player g;
          vy = (if \<not> grounded p then velocityY p + gravity p * dt else velocityY p);
          y1 = pos_y p + vy * dt;
          groundY = canvasHeight g - height p
      in if y1 \<ge> groundY
         then g\<lparr>player := p\<lparr>pos_y := groundY, velocityY := 0, grounded := True\<rparr>\<rparr>
         else g\<lparr>player := p\<lparr>pos_y := y1, velocityY := vy, grounded := False\<rparr>\<rparr>)"

text \<open>
  3) The decision of the linear policy. \<open>find\<close> returns the first obstacle, in array
  order, whose right edge is beyond the player's left edge. A weight that is \<open>undefined\<close>
  makes the output \<open>NaN\<close> (\<open>None\<close>), and \<open>NaN > 0\<close> is false.
\<close>

definition nextObstacle :: "Game \<Rightarrow> Obstacle option" where
  "nextObstacle g = find (\<lambda>ob. pos_x ob + width ob > pos_x (player g)) (obstacles g)"

definition distToNext :: "Game \<Rightarrow> real" where
  "distToNext g =
     (case nextObstacle g of Some ob \<Rightarrow> pos_x ob - pos_x (player g) | None \<Rightarrow> 999)"

definition normalizedDist :: "Game \<Rightarrow> real" where
  "normalizedDist g = min (distToNext g / canvasWidth g) 1"

definition normalizedHeight :: "Game \<Rightarrow> real" where
  "normalizedHeight g = pos_y (player g) / canvasHeight g"

definition policy_output :: "Game \<Rightarrow> real option" where
  "policy_output g =
     (case (w1 g, w2 g, bias g) of
        (Some a1, Some a2, Some a0) \<Rightarrow> Some (a1 * normalizedDist g + a2 * normalizedHeight g + a0)
      | _ \<Rightarrow> None)"

definition wantsJump :: "Game \<Rightarrow> bool" where
  "wantsJump g = (case policy_output g of Some v \<Rightarrow> v > 0 | None \<Rightarrow> False)"

definition step_brain :: "Game \<Rightarrow> Game" where
  "step_brain g =
     (if wantsJump g \<and> grounded (player g)
      then g\<lparr>player := (player g)\<lparr>velocityY := jumpPower (player g), grounded := False\<rparr>\<rparr>
      else g)"

text \<open>4) Spawn obstacles.\<close>

definition step_spawn :: "(nat \<Rightarrow> real) \<Rightarrow> real \<Rightarrow> Game \<Rightarrow> Game" where
  "step_spawn rnd dt g =
     (let t = js_add (spawnTimer g) dt
      in if t \<ge> nextSpawnDelay g
         then g\<lparr>spawnTimer := 0,
                nextSpawnDelay := fst (getRandomDelay rnd (randomCalls g)),
                randomCalls := snd (getRandomDelay rnd (randomCalls g)),
                obstacles := obstacles g @
                  [new_Obstacle (canvasWidth g) (canvasHeight g - obstacleSize_h)
                     obstacleSize_w obstacleSize_h obstacleSpeed]\<rparr>
         else g\<lparr>spawnTimer := t\<rparr>)"

text \<open>
  5) Update and cull obstacles. The source walks the array from its last index down to
  index 0, moves each obstacle and splices it out when it is off screen; the elements
  behind the current one are done when it is reached.
\<close>

fun update_and_cull :: "real \<Rightarrow> Obstacle list \<Rightarrow> Obstacle list" where
  "update_and_cull dt [] = []"
| "update_and_cull dt (ob # obs) =
     (let rest = update_and_cull dt obs; moved = update ob dt
      in if isOffScreen moved then rest else moved # rest)"

definition step_obstacles :: "real \<Rightarrow> Game \<Rightarrow> Game" where
  "step_obstacles dt g = g\<lparr>obstacles := update_and_cull dt (obstacles g)\<rparr>"

text \<open>6) Collision detection.\<close>

definition step_collision :: "Game \<Rightarrow> Game" where
  "step_collision g =
     (if list_ex (\<lambda>ob. collidesWith ob (player g)) (obstacles g)
      then g\<lparr>gameOver := True\<rparr> else g)"

definition step :: "(nat \<Rightarrow> real) \<Rightarrow> Game \<Rightarrow> real \<Rightarrow> Game" where
  "step rnd g dt =
     step_collision (step_obstacles dt (step_spawn rnd dt (step_brain
       (step_physics dt (step_time dt g)))))"

subsection \<open>Running an episode\<close>

definition FIXED_DT :: real where "FIXED_DT = binary64 (1 / 60)"
definition MAX_TIME :: real where "MAX_TIME = 30"

text \<open>
  The loop of \<open>run\<close>. Nothing in its shape bounds the number of iterations for an
  arbitrary state (a large negative \<open>totalTime\<close> absorbs the increment), so it is a
  partial function: \<open>None\<close> stands for a loop that never ends.
\<close>

partial_function (option) run_loop :: "(nat \<Rightarrow> real) \<Rightarrow> Game \<Rightarrow> Game option" where
  "run_loop rnd g =
     (if \<not> gameOver g \<and> totalTime g < MAX_TIME
      then run_loop rnd (step rnd g FIXED_DT) else Some g)"

definition run :: "(nat \<Rightarrow> real) \<Rightarrow> Game \<Rightarrow> real option" where
  "run rnd g = map_option totalTime (run_loop rnd g)"

section \<open>The genetic algorithm\<close>

text \<open>
  A call either returns, throws a \<open>TypeError\<close> (a property of \<open>undefined\<close> is read), or
  never returns (the rejection loops of \<open>randn\<close>, the loop of \<open>run\<close>).
\<close>

datatype 'a outcome = Returns 'a | TypeError | Diverges

fun and_then :: "'a outcome \<Rightarrow> ('a \<Rightarrow> 'b outcome) \<Rightarrow> 'b outcome" where
  "and_then (Returns v) f = f v"
| "and_then TypeError f = TypeError"
| "and_then Diverges f = Diverges"

text \<open>An array read at a computed index, which may be any integer.\<close>

definition js_at :: "'a list \<Rightarrow> int \<Rightarrow> 'a option" where
  "js_at xs i = (if 0 \<le> i \<and> i < int (length xs) then Some (xs ! nat i) else None)"

record Scored =
  genome :: "real list"
  fitness :: real

definition clamp2 :: "real \<Rightarrow> real" where
  "clamp2 v = max (- 2) (min 2 v)"

definition randGenome :: "(nat \<Rightarrow> real) \<Rightarrow> nat \<Rightarrow> real list \<times> nat" where
  "randGenome rnd k =
     ([rnd k * 2 - 1, rnd (Suc k) * 2 - 1, rnd (Suc (Suc k)) * 2 - 1], Suc (Suc (Suc k)))"

text \<open>\<open>while (u === 0) u = Math.random()\<close>, starting from \<open>u = 0\<close>.\<close>

partial_function (option) nonzero_random :: "(nat \<Rightarrow> real) \<Rightarrow> nat \<Rightarrow> (real \<times> nat) option" where
  "nonzero_random rnd k =
     (if rnd k = 0 then nonzero_random rnd (Suc k) else Some (rnd k, Suc k))"

definition randn :: "(nat \<Rightarrow> real) \<Rightarrow> nat \<Rightarrow> (real \<times> nat) outcome" where
  "randn rnd k =
     (case nonzero_random rnd k of
        None \<Rightarrow> Diverges
      | Some (u, k1) \<Rightarrow>
          (case nonzero_random rnd k1 of
             None \<Rightarrow> Diverges
           | Some (v, k2) \<Rightarrow> Returns (sqrt (- 2 * ln u) * cos (2 * pi * v), k2)))"

subsection \<open>The visual trainer: \<open>mutateGenome\<close>, \<open>breedNextGeneration\<close>\<close>

text \<open>The loop over the indices of the copied genome, gene by gene.\<close>

fun mutate_genes ::
  "(nat \<Rightarrow> real) \<Rightarrow> real \<Rightarrow> real list \<Rightarrow> nat \<Rightarrow> (real list \<times> nat) outcome" where
  "mutate_genes rnd mutationRate [] k = Returns ([], k)"
| "mutate_genes rnd mutationRate (c # cs) k =
     (if rnd k < mutationRate
      then and_then (randn rnd (Suc k)) (\<lambda>(z, k1).
           and_then (mutate_genes rnd mutationRate cs k1) (\<lambda>(cs', k2).
           Returns (clamp2 (c + z * 0.2) # cs', k2)))
      else and_then (mutate_genes rnd mutationRate cs (Suc k)) (\<lambda>(cs', k2).
           Returns (c # cs', k2)))"

definition mutateGenome ::
  "(nat \<Rightarrow> real) \<Rightarrow> real list \<Rightarrow> real \<Rightarrow> nat \<Rightarrow> (real list \<times> nat) outcome" where
  "mutateGenome rnd child mutationRate k = mutate_genes rnd mutationRate child k"

text \<open>
  The filling loop \<open>while (nextGeneration.length < targetPopSize)\<close> pushes one child per
  iteration; its first argument counts the slots still to fill.
\<close>

fun breed_fill ::
  "nat \<Rightarrow> (nat \<Rightarrow> real) \<Rightarrow> Scored list \<Rightarrow> real \<Rightarrow> real list list \<Rightarrow> nat
     \<Rightarrow> (real list list \<times> nat) outcome" where
  "breed_fill 0 rnd elites mutationRate nextGeneration k = Returns (nextGeneration, k)"
| "breed_fill (Suc n) rnd elites mutationRate nextGeneration k =
     (case js_at elites \<lfloor>rnd k * real (length elites)\<rfloor> of
        None \<Rightarrow> TypeError
      | Some parent \<Rightarrow>
          and_then (mutateGenome rnd (genome parent) mutationRate (Suc k)) (\<lambda>(child, k1).
          breed_fill n rnd elites mutationRate (nextGeneration @ [child]) k1))"

definition breedNextGeneration ::
  "(nat \<Rightarrow> real) \<Rightarrow> Scored list \<Rightarrow> real \<Rightarrow> nat \<Rightarrow> nat \<Rightarrow> (real list list \<times> nat) outcome" where
  "breedNextGeneration rnd elites mutationRate targetPopSize k =
     breed_fill (targetPopSize - length elites) rnd elites mutationRate (map genome elites) k"

text \<open>\<open>scored.sort((a, b) => b.fitness - a.fitness)\<close>: a stable sort, best first.\<close>

definition sort_by_fitness :: "Scored list \<Rightarrow> Scored list" where
  "sort_by_fitness scored = sort_key (\<lambda>s. - fitness s) scored"

text \<open>
  The part of the loop body of \<open>swarmTrainingLoop\<close> that follows the evaluation of the
  population: ranking, elite selection and breeding. The size of the next population is
  read from the user interface and is a parameter here.
\<close>

definition swarm_next_population ::
  "(nat \<Rightarrow> real) \<Rightarrow> Scored list \<Rightarrow> real \<Rightarrow> nat \<Rightarrow> nat \<Rightarrow> (real list list \<times> nat) outcome" where
  "swarm_next_population rnd scored mutationRate targetPopSize k =
     (let ranked = sort_by_fitness scored
      in if ranked = [] then TypeError
         else let eliteCount = \<lfloor>real (length ranked) * 0.1\<rfloor>;
                  elites = take (nat eliteCount) ranked
              in breedNextGeneration rnd elites mutationRate targetPopSize k)"

subsection \<open>The headless trainer: \<open>runGA\<close>\<close>

definition POP_SIZE :: nat where "POP_SIZE = 50"
definition ELITE_FRACTION :: real where "ELITE_FRACTION = 0.1"
definition GENERATIONS :: nat where "GENERATIONS = 100"
definition MUTATION_RATE :: real where "MUTATION_RATE = 0.1"

fun init_population :: "nat \<Rightarrow> (nat \<Rightarrow> real) \<Rightarrow> nat \<Rightarrow> real list list \<times> nat" where
  "init_population 0 rnd k = ([], k)"
| "init_population (Suc n) rnd k =
     (let (g, k1) = randGenome rnd k; (gs, k2) = init_population n rnd k1 in (g # gs, k2))"

text \<open>\<open>new Game(genome).run()\<close>, paired with the genome.\<close>

definition evaluate :: "(nat \<Rightarrow> real) \<Rightarrow> real list \<Rightarrow> nat \<Rightarrow> (Scored \<times> nat) outcome" where
  "evaluate rnd g k =
     (case run_loop rnd (new_Game rnd g k) of
        None \<Rightarrow> Diverges
      | Some final \<Rightarrow> Returns (\<lparr>genome = g, fitness = totalTime final\<rparr>, randomCalls final))"

fun evaluate_population ::
  "(nat \<Rightarrow> real) \<Rightarrow> real list list \<Rightarrow> nat \<Rightarrow> (Scored list \<times> nat) outcome" where
  "evaluate_population rnd [] k = Returns ([], k)"
| "evaluate_population rnd (g # gs) k =
     and_then (evaluate rnd g k) (\<lambda>(s, k1).
     and_then (evaluate_population rnd gs k1) (\<lambda>(ss, k2).
     Returns (s # ss, k2)))"

text \<open>
  \<open>Math.max(0.1, Math.max(...vals) - Math.min(...vals))\<close>. For an empty array the inner
  difference is \<open>-Infinity\<close> and the result is \<open>0.1\<close>.
\<close>

definition spread :: "real list \<Rightarrow> real" where
  "spread vals =
     (if vals = [] then 0.1
      else max 0.1 (fold max vals (hd vals) - fold min vals (hd vals)))"

text \<open>
  One child of \<open>runGA\<close>. Every genome of \<open>runGA\<close> has three genes (see
  \<open>ga_loop_wellformed\<close> below), so the reads of the parent stay inside the array.
\<close>

definition ga_child ::
  "(nat \<Rightarrow> real) \<Rightarrow> real list \<Rightarrow> real \<Rightarrow> real \<Rightarrow> real \<Rightarrow> nat \<Rightarrow> (real list \<times> nat) outcome" where
  "ga_child rnd parent \<sigma>1 \<sigma>2 \<sigma>b k =
     and_then (randn rnd k) (\<lambda>(z1, k1).
     and_then (randn rnd k1) (\<lambda>(z2, k2).
     and_then (randn rnd k2) (\<lambda>(z3, k3).
     Returns ([clamp2 (parent ! 0 + z1 * \<sigma>1 * MUTATION_RATE),
               clamp2 (parent ! 1 + z2 * \<sigma>2 * MUTATION_RATE),
               clamp2 (parent ! 2 + z3 * \<sigma>b * MUTATION_RATE)], k3))))"

fun ga_fill ::
  "nat \<Rightarrow> (nat \<Rightarrow> real) \<Rightarrow> Scored list \<Rightarrow> int \<Rightarrow> real \<Rightarrow> real \<Rightarrow> real \<Rightarrow> real list list \<Rightarrow> nat
     \<Rightarrow> (real list list \<times> nat) outcome" where
  "ga_fill 0 rnd elites eliteCount \<sigma>1 \<sigma>2 \<sigma>b newPop k = Returns (newPop, k)"
| "ga_fill (Suc n) rnd elites eliteCount \<sigma>1 \<sigma>2 \<sigma>b newPop k =
     (case js_at elites \<lfloor>rnd k * real_of_int eliteCount\<rfloor> of
        None \<Rightarrow> TypeError
      | Some parent \<Rightarrow>
          and_then (ga_child rnd (genome parent) \<sigma>1 \<sigma>2 \<sigma>b (Suc k)) (\<lambda>(child, k1).
          ga_fill n rnd elites eliteCount \<sigma>1 \<sigma>2 \<sigma>b (newPop @ [child]) k1))"

text \<open>Elite selection and replacement, from the ranked records.\<close>

definition next_population ::
  "(nat \<Rightarrow> real) \<Rightarrow> Scored list \<Rightarrow> nat \<Rightarrow> (real list list \<times> nat) outcome" where
  "next_population rnd ranked k =
     (let eliteCount = \<lfloor>real POP_SIZE * ELITE_FRACTION\<rfloor>;
          elites = take (nat eliteCount) ranked;
          \<sigma>1 = spread (map (\<lambda>e. genome e ! 0) elites);
          \<sigma>2 = spread (map (\<lambda>e. genome e ! 1) elites);
          \<sigma>b = spread (map (\<lambda>e. genome e ! 2) elites);
          newPop = map genome elites
      in ga_fill (POP_SIZE - length newPop) rnd elites eliteCount \<sigma>1 \<sigma>2 \<sigma>b newPop k)"

text \<open>The body of the loop over the generations.\<close>

definition generation ::
  "(nat \<Rightarrow> real) \<Rightarrow> real list list \<Rightarrow> nat \<Rightarrow> (real list list \<times> nat) outcome" where
  "generation rnd population k =
     and_then (evaluate_population rnd population k) (\<lambda>(scored, k1).
       if scored = [] then TypeError
       else next_population rnd (sort_by_fitness scored) k1)"

fun ga_loop ::
  "nat \<Rightarrow> (nat \<Rightarrow> real) \<Rightarrow> real list list \<Rightarrow> nat \<Rightarrow> (real list list \<times> nat) outcome" where
  "ga_loop 0 rnd population k = Returns (population, k)"
| "ga_loop (Suc n) rnd population k =
     and_then (generation rnd population k) (\<lambda>(newPop, k1). ga_loop n rnd newPop k1)"

text \<open>\<open>runGA\<close> returns \<open>population[0]\<close>, which is \<open>undefined\<close> (\<open>None\<close>) for an empty array.\<close>

definition runGA :: "(nat \<Rightarrow> real) \<Rightarrow> nat \<Rightarrow> real list option outcome" where
  "runGA rnd k =
     (let (population, k0) = init_population POP_SIZE rnd k
      in and_then (ga_loop GENERATIONS rnd population k0) (\<lambda>(final, k1).
         Returns (js_index final 0)))"

section \<open>Notions used in the statements\<close>

text \<open>The contract of \<open>Math.random()\<close>: values in \<open>[0, 1)\<close>, and not zero from some call on.\<close>

definition valid_random :: "(nat \<Rightarrow> real) \<Rightarrow> bool" where
  "valid_random rnd = ((\<forall>i. 0 \<le> rnd i \<and> rnd i < 1) \<and> (\<forall>i. \<exists>j\<ge>i. rnd j \<noteq> 0))"

text \<open>The agent stands on the ground: grounded, at ground level, with no vertical velocity.\<close>

definition atRest :: "Game \<Rightarrow> bool" where
  "atRest g = (grounded (player g) \<and> pos_y (player g) = canvasHeight g - height (player g)
     \<and> velocityY (player g) = 0)"

text \<open>\<open>n\<close> iterations of the body of the loop of \<open>run\<close>, and the elapsed time they add up.\<close>

primrec steps :: "(nat \<Rightarrow> real) \<Rightarrow> nat \<Rightarrow> Game \<Rightarrow> Game" where
  "steps rnd 0 g = g"
| "steps rnd (Suc n) g = steps rnd n (step rnd g FIXED_DT)"

primrec elapsed :: "nat \<Rightarrow> real \<Rightarrow> real" where
  "elapsed 0 t = t"
| "elapsed (Suc n) t = elapsed n (js_add t FIXED_DT)"

text \<open>\<open>climb n t\<close> adds up \<open>n\<close> increments and checks that none of them decreases the sum.\<close>

primrec climb :: "nat \<Rightarrow> real \<Rightarrow> real option" where
  "climb 0 t = Some t"
| "climb (Suc n) t = (let t' = js_add t FIXED_DT in if t \<le> t' then climb n t' else None)"

text \<open>
  A state without its clock and without the cursor of the generator; \<open>csteps\<close> iterates
  the loop body on such states.
\<close>

definition core :: "Game \<Rightarrow> Game" where
  "core g = g\<lparr>totalTime := 0, randomCalls := 0\<rparr>"

primrec csteps :: "(nat \<Rightarrow> real) \<Rightarrow> nat \<Rightarrow> Game \<Rightarrow> Game" where
  "csteps rnd 0 g = g"
| "csteps rnd (Suc n) g = csteps rnd n (core (step rnd g FIXED_DT))"

text \<open>
  An example episode: every call of \<open>Math.random()\<close> returns \<open>0.25\<close>, so that every spawn
  delay is \<open>1.225\<close> seconds, and the policy jumps when the next obstacle is nearer than a
  tenth of the playfield width.
\<close>

definition example_rnd :: "nat \<Rightarrow> real" where "example_rnd = (\<lambda>_. 1 / 4)"
definition example_genome :: "real list" where "example_genome = [- 1, 0, 1 / 10]"

text \<open>An obstacle of the headless game after \<open>n\<close> updates.\<close>

definition travelled :: "nat \<Rightarrow> Obstacle" where
  "travelled n =
     (new_Obstacle CANVAS_WIDTH (CANVAS_HEIGHT - obstacleSize_h)
        obstacleSize_w obstacleSize_h obstacleSpeed)
       \<lparr>pos_x := CANVAS_WIDTH - real n * (obstacleSpeed * FIXED_DT)\<rparr>"

text \<open>The example game with the agent standing on the ground and the given obstacles.\<close>

definition resting :: "Obstacle list \<Rightarrow> Game" where
  "resting obs =
     (let g = new_Game example_rnd example_genome 0
      in g\<lparr>player := (player g)\<lparr>pos_y := canvasHeight g - height (player g), grounded := True\<rparr>,
            obstacles := obs, totalTime := 0, randomCalls := 0\<rparr>)"

text \<open>A game whose only obstacle will touch the right edge of the falling agent.\<close>

definition touching_game :: Game where
  "touching_game =
     (new_Game example_rnd [0, 0, - 1] 0)\<lparr>obstacles := [new_Obstacle 415 425 25 25 250]\<rparr>"

text \<open>A generator that returns \<open>0.5\<close> at every call.\<close>

definition coin_rnd :: "nat \<Rightarrow> real" where "coin_rnd = (\<lambda>_. 1 / 2)"

text \<open>Genes within the range of the clamp.\<close>

definition in_range :: "real \<Rightarrow> bool" where
  "in_range v = (- 2 \<le> v \<and> v \<le> 2)"

text \<open>Eleven ranked records with pairwise different genomes, the best one first.\<close>

definition example_scored :: "Scored list" where
  "example_scored =
     map (\<lambda>i. \<lparr>genome = [i, 0, 0], fitness = 30 - i\<rparr>) [0, 1, 2, 3, 4, 5, 6, 7, 8, 9, 10]"

section \<open>Rounding to binary64\<close>

lemma bitlen_eqI: "2 ^ k \<le> n \<Longrightarrow> n < 2 ^ Suc k \<Longrightarrow> bitlen n = int k + 1"
proof (rule antisym)
  assume "n < 2 ^ Suc k"
  then show "bitlen n \<le> int k + 1"
    by (simp add: bitlen_le_iff_power nat_add_distrib)
next
  assume "2 ^ k \<le> n"
  then show "int k + 1 \<le> bitlen n"
    by (simp add: bitlen_ge_iff_power nat_add_distrib)
qed

lemma binade_eq_nonneg:
  assumes "2 ^ k \<le> v" and "v < 2 ^ Suc k"
  shows "binade v = int k"
proof -
  have "(1::real) \<le> 2 ^ k" by simp
  with assms have v1: "1 \<le> v" by linarith
  have "(2::int) ^ k \<le> \<lfloor>v\<rfloor>"
  proof -
    have "of_int ((2::int) ^ k) \<le> v" using assms by simp
    then show ?thesis by (simp only: le_floor_iff)
  qed
  moreover have "\<lfloor>v\<rfloor> < 2 ^ Suc k"
  proof -
    have "v < of_int ((2::int) ^ Suc k)" using assms by simp
    then show ?thesis by (simp only: floor_less_iff)
  qed
  ultimately have "bitlen \<lfloor>v\<rfloor> = int k + 1" by (rule bitlen_eqI)
  with v1 show ?thesis by (simp add: binade_def)
qed

lemma binade_eq_neg:
  assumes "1 / 2 ^ Suc k \<le> v" and "v < 1 / 2 ^ k"
  shows "binade v = - int (Suc k)"
proof -
  have pos: "0 < v" using assms(1) by (smt (verit) divide_pos_pos zero_less_power zero_less_one)
  have "(1::real) / 2 ^ k \<le> 1" by (simp add: field_simps)
  with assms have v1: "\<not> 1 \<le> v" by linarith
  have up: "1 / v \<le> 2 ^ Suc k"
    using assms(1) pos by (simp add: field_simps)
  have lo: "2 ^ k < 1 / v"
    using assms(2) pos by (simp add: field_simps)
  have "\<lceil>1 / v\<rceil> \<le> 2 ^ Suc k"
  proof -
    have "1 / v \<le> of_int ((2::int) ^ Suc k)" using up by simp
    then show ?thesis by (simp only: ceiling_le_iff)
  qed
  then have a: "\<lceil>1 / v\<rceil> - 1 < 2 ^ Suc k" by simp
  have "(2::int) ^ k < \<lceil>1 / v\<rceil>"
  proof -
    have "of_int ((2::int) ^ k) < 1 / v" using lo by simp
    then show ?thesis by (simp only: less_ceiling_iff)
  qed
  then have b: "2 ^ k \<le> \<lceil>1 / v\<rceil> - 1" by simp
  from b a have "bitlen (\<lceil>1 / v\<rceil> - 1) = int k + 1" by (rule bitlen_eqI)
  with v1 show ?thesis by (simp add: binade_def)
qed

lemma binary64_upper_binade:
  assumes "2 ^ k \<le> v" and "v < 2 ^ Suc k" and "k \<le> 52"
  shows "binary64 v = of_int (round_half_even (v * 2 ^ (52 - k))) / 2 ^ (52 - k)"
proof -
  have pos: "0 < v" using assms(1) by (smt (verit) zero_less_power)
  have "(2::real) powi (int k - 52) = 1 / 2 ^ (52 - k)"
    using assms(3) by (simp add: power_int_def nat_diff_distrib' field_simps)
  with pos show ?thesis
    by (simp add: binary64_def binade_eq_nonneg [OF assms(1,2)] Let_def)
qed

lemma binary64_lower_binade:
  assumes "1 / 2 ^ Suc k \<le> v" and "v < 1 / 2 ^ k"
  shows "binary64 v = of_int (round_half_even (v * 2 ^ (53 + k))) / 2 ^ (53 + k)"
proof -
  have pos: "0 < v" using assms(1) by (smt (verit) divide_pos_pos zero_less_power zero_less_one)
  have "(2::real) powi (- int (Suc k) - 52) = 1 / 2 ^ (53 + k)"
    by (simp add: power_int_def nat_add_distrib field_simps)
  with pos show ?thesis
    by (simp add: binary64_def binade_eq_neg [OF assms] Let_def)
qed

lemma binary64_numeral:
  "16 \<le> v \<Longrightarrow> v < 32 \<Longrightarrow> binary64 v = of_int (round_half_even (v * 281474976710656)) / 281474976710656"
  "8 \<le> v \<Longrightarrow> v < 16 \<Longrightarrow> binary64 v = of_int (round_half_even (v * 562949953421312)) / 562949953421312"
  "4 \<le> v \<Longrightarrow> v < 8 \<Longrightarrow> binary64 v = of_int (round_half_even (v * 1125899906842624)) / 1125899906842624"
  "2 \<le> v \<Longrightarrow> v < 4 \<Longrightarrow> binary64 v = of_int (round_half_even (v * 2251799813685248)) / 2251799813685248"
  "1 \<le> v \<Longrightarrow> v < 2 \<Longrightarrow> binary64 v = of_int (round_half_even (v * 4503599627370496)) / 4503599627370496"
  "1 / 2 \<le> v \<Longrightarrow> v < 1 / 1 \<Longrightarrow> binary64 v = of_int (round_half_even (v * 9007199254740992)) / 9007199254740992"
  "1 / 4 \<le> v \<Longrightarrow> v < 1 / 2 \<Longrightarrow> binary64 v = of_int (round_half_even (v * 18014398509481984)) / 18014398509481984"
  "1 / 8 \<le> v \<Longrightarrow> v < 1 / 4 \<Longrightarrow> binary64 v = of_int (round_half_even (v * 36028797018963968)) / 36028797018963968"
  "1 / 16 \<le> v \<Longrightarrow> v < 1 / 8 \<Longrightarrow> binary64 v = of_int (round_half_even (v * 72057594037927936)) / 72057594037927936"
  "1 / 32 \<le> v \<Longrightarrow> v < 1 / 16 \<Longrightarrow> binary64 v = of_int (round_half_even (v * 144115188075855872)) / 144115188075855872"
  "1 / 64 \<le> v \<Longrightarrow> v < 1 / 32 \<Longrightarrow> binary64 v = of_int (round_half_even (v * 288230376151711744)) / 288230376151711744"
  using binary64_upper_binade [of 4 v]
    binary64_upper_binade [of 3 v]
    binary64_upper_binade [of 2 v]
    binary64_upper_binade [of 1 v]
    binary64_upper_binade [of 0 v]
    binary64_lower_binade [of 0 v]
    binary64_lower_binade [of 1 v]
    binary64_lower_binade [of 2 v]
    binary64_lower_binade [of 3 v]
    binary64_lower_binade [of 4 v]
    binary64_lower_binade [of 5 v]
  by simp_all

lemma FIXED_DT_value: "FIXED_DT = 4803839602528529 / 288230376151711744"
  by (simp add: FIXED_DT_def binary64_numeral round_half_even_def Let_def)

lemma climb_numeral:
  "climb (numeral m) t =
     (let t' = js_add t FIXED_DT in if t \<le> t' then climb (pred_numeral m) t' else None)"
  by (simp add: numeral_eq_Suc)

lemmas climb_eval =
  climb_numeral js_add_def FIXED_DT_value binary64_numeral round_half_even_def Let_def

lemma climb_chunk_1:
  "climb 225 (0) = Some (8444249301319661 / 2251799813685248)"
  by (simp add: climb_eval)

lemma climb_chunk_2:
  "climb 225 (8444249301319661 / 2251799813685248) = Some (1055531162664957 / 140737488355328)"
  by (simp add: climb_eval)

lemma climb_chunk_3:
  "climb 225 (1055531162664957 / 140737488355328) = Some (3166593487994919 / 281474976710656)"
  by (simp add: climb_eval)

lemma climb_chunk_4:
  "climb 225 (3166593487994919 / 281474976710656) = Some (8444249301319863 / 562949953421312)"
  by (simp add: climb_eval)

lemma climb_chunk_5:
  "climb 225 (8444249301319863 / 562949953421312) = Some (5277655813324861 / 281474976710656)"
  by (simp add: climb_eval)

lemma climb_chunk_6:
  "climb 225 (5277655813324861 / 281474976710656) = Some (6333186975989761 / 281474976710656)"
  by (simp add: climb_eval)

lemma climb_chunk_7:
  "climb 225 (6333186975989761 / 281474976710656) = Some (7388718138654661 / 281474976710656)"
  by (simp add: climb_eval)

lemma climb_chunk_8:
  "climb 225 (7388718138654661 / 281474976710656) = Some (8444249301319561 / 281474976710656)"
  by (simp add: climb_eval)

section \<open>Properties of the game\<close>

text \<open>The spawn delay of the example episode is the binary64 value of \<open>1.225\<close>.\<close>

lemma example_delay:
  "getRandomDelay example_rnd k = (2758454771764429 / 2251799813685248, Suc k)"
  by (simp add: getRandomDelay_def example_rnd_def minSpawnDelay_def maxSpawnDelay_def
      js_add_def js_sub_def js_mul_def binary64_numeral round_half_even_def Let_def)

lemma player_step_time [simp]: "player (step_time dt g) = player g"
  by (simp add: step_time_def)

lemma player_step_spawn [simp]: "player (step_spawn rnd dt g) = player g"
  by (simp add: step_spawn_def Let_def)

lemma player_step_obstacles [simp]: "player (step_obstacles dt g) = player g"
  by (simp add: step_obstacles_def)

lemma player_step_collision [simp]: "player (step_collision g) = player g"
  by (simp add: step_collision_def)

lemma player_step:
  "player (step rnd g dt) = player (step_brain (step_physics dt (step_time dt g)))"
  by (simp add: step_def)

lemma canvas_step [simp]:
  "canvasWidth (step rnd g dt) = canvasWidth g" "canvasHeight (step rnd g dt) = canvasHeight g"
  by (simp_all add: step_def step_collision_def step_obstacles_def step_spawn_def step_brain_def
      step_physics_def step_time_def Let_def)

lemma gameOver_step:
  "gameOver (step rnd g dt) \<longleftrightarrow>
     gameOver g \<or>
     list_ex (\<lambda>ob. collidesWith ob (player (step rnd g dt))) (obstacles (step rnd g dt))"
  by (simp add: step_def step_collision_def step_obstacles_def step_spawn_def step_brain_def
      step_physics_def step_time_def Let_def)

lemma totalTime_step [simp]: "totalTime (step rnd g dt) = js_add (totalTime g) dt"
  by (simp add: step_def step_collision_def step_obstacles_def step_spawn_def step_brain_def
      step_physics_def step_time_def Let_def)

lemma run_loop_exit: "gameOver g \<or> MAX_TIME \<le> totalTime g \<Longrightarrow> run_loop rnd g = Some g"
  by (subst run_loop.simps) auto

subsection \<open>The bounding-box test\<close>

text \<open>
  C8. The overlap test gives the same answer when its two rectangles are exchanged, and a
  rectangle of non-negative width and height collides with itself.
\<close>

theorem collidesWith_symmetric_reflexive:
  assumes "0 \<le> width r1" and "0 \<le> height r1"
  shows "collidesWith r1 r2 = collidesWith r2 r1 \<and> collidesWith r1 r1"
  using assms by (auto simp: collidesWith_def)

theorem collidesWith_symmetric_reflexive_witness:
  "collidesWith (player touching_game) (new_Obstacle 415 425 25 25 250)
     = collidesWith (new_Obstacle 415 425 25 25 250) (player touching_game)
   \<and> collidesWith (player touching_game) (player touching_game)"
  using collidesWith_symmetric_reflexive
    [of "player touching_game" "new_Obstacle 415 425 25 25 250"]
  by (simp add: touching_game_def new_Game_def)

text \<open>
  C9. Rectangles that only touch are reported as colliding: when, at the end of a step, the
  right edge of the agent is exactly on the left edge of a live obstacle and their vertical
  extents meet, the test holds, the step sets \<open>gameOver\<close>, and the loop of \<open>run\<close> stops.
\<close>

theorem edge_contact_is_collision:
  assumes "p = player (step rnd g dt)" and "ob \<in> set (obstacles (step rnd g dt))"
    and "pos_x p + width p = pos_x ob"
    and "0 \<le> width p" and "0 \<le> width ob"
    and "pos_y p \<le> pos_y ob + height ob" and "pos_y ob \<le> pos_y p + height p"
  shows "collidesWith ob p \<and> gameOver (step rnd g dt)
     \<and> run_loop rnd (step rnd g dt) = Some (step rnd g dt)"
proof -
  have hit: "collidesWith ob p"
    using assms(3-7) by (auto simp: collidesWith_def)
  with assms(1,2) have "list_ex (\<lambda>ob. collidesWith ob (player (step rnd g dt))) (obstacles (step rnd g dt))"
    by (auto simp: list_ex_iff)
  then have "gameOver (step rnd g dt)"
    by (subst gameOver_step) simp
  with hit show ?thesis
    by (simp add: run_loop_exit)
qed

lemma touching_game_step:
  "obstacles (step example_rnd touching_game (1 / 50)) = [(new_Obstacle 415 425 25 25 250)\<lparr>pos_x := 410\<rparr>]"
  "player (step example_rnd touching_game (1 / 50)) =
     (player touching_game)\<lparr>pos_y := 4203924 / 10000, velocityY := 981 / 50\<rparr>"
  by (simp_all add: touching_game_def new_Game_def step_def step_collision_def step_obstacles_def
      step_spawn_def step_brain_def step_physics_def step_time_def Let_def example_delay
      js_add_def binary64_numeral round_half_even_def update_def isOffScreen_def new_Obstacle_def
      CANVAS_WIDTH_def CANVAS_HEIGHT_def)

theorem edge_contact_is_collision_witness:
  "pos_x (player (step example_rnd touching_game (1 / 50)))
     + width (player (step example_rnd touching_game (1 / 50))) = 410
   \<and> collidesWith ((new_Obstacle 415 425 25 25 250)\<lparr>pos_x := 410\<rparr>)
       (player (step example_rnd touching_game (1 / 50)))
   \<and> gameOver (step example_rnd touching_game (1 / 50))
   \<and> run_loop example_rnd (step example_rnd touching_game (1 / 50))
       = Some (step example_rnd touching_game (1 / 50))"
  using edge_contact_is_collision
    [of "player (step example_rnd touching_game (1 / 50))" example_rnd touching_game "1 / 50"
        "(new_Obstacle 415 425 25 25 250)\<lparr>pos_x := 410\<rparr>"]
  by (simp add: touching_game_step) (simp add: touching_game_def new_Game_def new_Obstacle_def
      CANVAS_WIDTH_def CANVAS_HEIGHT_def)

subsection \<open>The agent\<close>

lemma frame_step:
  "pos_x (player (step rnd g dt)) = pos_x (player g)"
  "width (player (step rnd g dt)) = width (player g)"
  "height (player (step rnd g dt)) = height (player g)"
  by (simp_all add: player_step step_brain_def step_physics_def Let_def)

text \<open>
  C10. A step changes neither the horizontal position nor the width nor the height of the
  agent, whatever the state and the time increment; hence no number of steps does.
\<close>

theorem step_keeps_agent_frame:
  "pos_x (player (step rnd g dt)) = pos_x (player g)
   \<and> width (player (step rnd g dt)) = width (player g)
   \<and> height (player (step rnd g dt)) = height (player g)
   \<and> pos_x (player (((\<lambda>s. step rnd s dt) ^^ n) g)) = pos_x (player g)
   \<and> width (player (((\<lambda>s. step rnd s dt) ^^ n) g)) = width (player g)
   \<and> height (player (((\<lambda>s. step rnd s dt) ^^ n) g)) = height (player g)"
proof -
  have "pos_x (player (((\<lambda>s. step rnd s dt) ^^ n) g)) = pos_x (player g)
      \<and> width (player (((\<lambda>s. step rnd s dt) ^^ n) g)) = width (player g)
      \<and> height (player (((\<lambda>s. step rnd s dt) ^^ n) g)) = height (player g)"
    by (induction n) (simp_all add: frame_step)
  then show ?thesis by (simp add: frame_step)
qed

lemma atRest_step:
  assumes "atRest g" and "\<not> wantsJump (step_physics dt (step_time dt g))"
  shows "atRest (step rnd g dt)"
proof -
  have phys: "player (step_physics dt (step_time dt g)) = player g"
    using assms(1) by (simp add: atRest_def step_physics_def step_time_def Let_def)
  have "player (step rnd g dt) = player g"
    using assms(2) by (simp add: player_step step_brain_def phys)
  with assms(1) show ?thesis by (simp add: atRest_def)
qed

text \<open>
  C7. An agent that stands on the ground (grounded, at ground level, zero vertical
  velocity) and whose policy output is not positive in any of the next \<open>n\<close> steps is, after
  these steps, still exactly at ground level, grounded and without vertical velocity. The
  output of a step is the one computed in it, after the physics. The playfield dimensions
  are non-zero, as they are in every game that is constructed.
\<close>

theorem grounded_agent_stays_on_ground:
  assumes "atRest g" and "canvasWidth g \<noteq> 0" and "canvasHeight g \<noteq> 0"
    and "\<forall>i<n. \<not> wantsJump (step_physics dt (step_time dt (((\<lambda>s. step rnd s dt) ^^ i) g)))"
  shows "atRest (((\<lambda>s. step rnd s dt) ^^ n) g)
     \<and> pos_y (player (((\<lambda>s. step rnd s dt) ^^ n) g)) = canvasHeight g - height (player g)"
proof -
  have rest: "atRest (((\<lambda>s. step rnd s dt) ^^ n) g)"
    using assms(4)
  proof (induction n)
    case 0
    show ?case using assms(1) by simp
  next
    case (Suc n)
    then have "atRest (((\<lambda>s. step rnd s dt) ^^ n) g)" by simp
    moreover have "\<not> wantsJump (step_physics dt (step_time dt (((\<lambda>s. step rnd s dt) ^^ n) g)))"
      using Suc.prems by simp
    ultimately show ?case by (simp add: atRest_step)
  qed
  have "canvasHeight (((\<lambda>s. step rnd s dt) ^^ n) g) = canvasHeight g"
    by (induction n) simp_all
  moreover have "height (player (((\<lambda>s. step rnd s dt) ^^ n) g)) = height (player g)"
    by (induction n) (simp_all add: frame_step)
  ultimately show ?thesis using rest by (simp add: atRest_def)
qed

lemma resting_never_jumps:
  "atRest ((resting [])\<lparr>bias := Some (- 1), w1 := Some 0\<rparr>)"
  "\<not> wantsJump (step_physics dt (step_time dt ((resting [])\<lparr>bias := Some (- 1), w1 := Some 0\<rparr>)))"
  by (simp_all add: atRest_def resting_def new_Game_def Let_def wantsJump_def policy_output_def
      step_physics_def step_time_def example_genome_def js_index_def)

theorem grounded_agent_stays_on_ground_witness:
  "atRest (step example_rnd ((resting [])\<lparr>bias := Some (- 1), w1 := Some 0\<rparr>) FIXED_DT)
   \<and> pos_y (player (step example_rnd ((resting [])\<lparr>bias := Some (- 1), w1 := Some 0\<rparr>) FIXED_DT))
       = 430"
  using grounded_agent_stays_on_ground
    [of "(resting [])\<lparr>bias := Some (- 1), w1 := Some 0\<rparr>" 1 FIXED_DT example_rnd]
  by (simp add: resting_never_jumps)
    (simp add: resting_def new_Game_def Let_def CANVAS_WIDTH_def CANVAS_HEIGHT_def)


section \<open>The elapsed time and the loop of \<open>run\<close>\<close>

lemma climb_elapsed:
  "climb n t = Some t' \<Longrightarrow> elapsed n t = t' \<and> (\<forall>i\<le>n. elapsed i t \<le> t')"
proof (induction n arbitrary: t)
  case 0
  then show ?case by simp
next
  case (Suc n)
  let ?t1 = "js_add t FIXED_DT"
  from Suc.prems have le: "t \<le> ?t1" and c: "climb n ?t1 = Some t'"
    by (auto simp: Let_def split: if_splits)
  from Suc.IH [OF c] have e: "elapsed n ?t1 = t'" and b: "\<forall>i\<le>n. elapsed i ?t1 \<le> t'"
    by auto
  have "elapsed i t \<le> t'" if "i \<le> Suc n" for i
  proof (cases i)
    case 0
    from b have "elapsed 0 ?t1 \<le> t'" by blast
    with le 0 show ?thesis by simp
  next
    case (Suc j)
    with that b show ?thesis by simp
  qed
  with e show ?case by simp
qed

text \<open>
  The rounding of the timers matters: with the least spawn delay, the binary64 value of
  \<open>0.8\<close>, the timer reaches the delay with its 48th increment, while 48 times the
  increment, computed exactly, is below the delay.
\<close>

lemma spawn_timer_rounding:
  "elapsed 47 0 < minSpawnDelay" "minSpawnDelay \<le> elapsed 48 0" "48 * FIXED_DT < minSpawnDelay"
proof -
  have m: "minSpawnDelay = 3602879701896397 / 4503599627370496"
    by (simp add: minSpawnDelay_def binary64_numeral round_half_even_def Let_def)
  have "climb 47 0 = Some (881954927026723 / 1125899906842624)"
    by (simp add: climb_eval)
  from climb_elapsed [OF this] show "elapsed 47 0 < minSpawnDelay"
    by (simp add: m)
  have "climb 48 0 = Some (7205759403792801 / 9007199254740992)"
    by (simp add: climb_eval)
  from climb_elapsed [OF this] show "minSpawnDelay \<le> elapsed 48 0"
    by (simp add: m)
  show "48 * FIXED_DT < minSpawnDelay"
    by (simp add: m FIXED_DT_value)
qed

lemma climb_add:
  "climb m t = Some t1 \<Longrightarrow> climb n t1 = Some t2 \<Longrightarrow> climb (m + n) t = Some t2"
  by (induction m arbitrary: t) (auto simp: Let_def split: if_splits)

lemma climb_1800: "climb 1800 0 = Some (8444249301319561 / 281474976710656)"
proof -
  note c = climb_add [OF climb_chunk_1 climb_chunk_2]
  note c = climb_add [OF c climb_chunk_3]
  note c = climb_add [OF c climb_chunk_4]
  note c = climb_add [OF c climb_chunk_5]
  note c = climb_add [OF c climb_chunk_6]
  note c = climb_add [OF c climb_chunk_7]
  note c = climb_add [OF c climb_chunk_8]
  then show ?thesis by simp
qed

lemma elapsed_1801: "elapsed 1801 0 = 8448940550931405 / 281474976710656"
proof -
  have "elapsed (1800 + 1) 0 = elapsed 1 (elapsed 1800 0)" for t
  proof -
    have "elapsed (m + n) t = elapsed n (elapsed m t)" for m n t
      by (induction m arbitrary: t) simp_all
    then show ?thesis .
  qed
  moreover have "elapsed 1800 0 = 8444249301319561 / 281474976710656"
    using climb_elapsed [OF climb_1800] by simp
  ultimately show ?thesis
    by (simp add: js_add_def FIXED_DT_value binary64_numeral round_half_even_def Let_def)
qed

lemma elapsed_bound:
  assumes "n \<le> 1801"
  shows "elapsed n 0 \<le> 8448940550931405 / 281474976710656"
    and "n \<le> 1800 \<Longrightarrow> elapsed n 0 < MAX_TIME"
proof -
  have small: "elapsed n 0 \<le> 8444249301319561 / 281474976710656" if "n \<le> 1800"
    using climb_elapsed [OF climb_1800] that by blast
  show "elapsed n 0 \<le> 8448940550931405 / 281474976710656"
  proof (cases "n \<le> 1800")
    case True
    from small [OF this] show ?thesis by simp
  next
    case False
    with assms have "n = 1801" by simp
    then show ?thesis by (simp add: elapsed_1801)
  qed
  show "elapsed n 0 < MAX_TIME" if "n \<le> 1800"
    using small [OF that] by (simp add: MAX_TIME_def)
qed

lemma totalTime_steps: "totalTime (steps rnd n g) = elapsed n (totalTime g)"
  by (induction n arbitrary: g) simp_all

lemma gameOver_steps: "gameOver g \<Longrightarrow> gameOver (steps rnd n g)"
  by (induction n arbitrary: g) (simp_all add: gameOver_step)

lemma steps_add: "steps rnd (m + n) g = steps rnd n (steps rnd m g)"
  by (induction m arbitrary: g) simp_all

lemma gameOver_steps_mono:
  "gameOver (steps rnd m g) \<Longrightarrow> m \<le> n \<Longrightarrow> gameOver (steps rnd n g)"
  using gameOver_steps [of "steps rnd m g" rnd "n - m"] steps_add [of rnd m "n - m" g]
  by simp

lemma run_loop_unroll:
  "\<forall>i<n. \<not> gameOver (steps rnd i g) \<and> totalTime (steps rnd i g) < MAX_TIME
     \<Longrightarrow> run_loop rnd g = run_loop rnd (steps rnd n g)"
proof (induction n arbitrary: g)
  case 0
  show ?case by simp
next
  case (Suc n)
  from Suc.prems have now: "\<not> gameOver g \<and> totalTime g < MAX_TIME"
    by (metis steps.simps(1) zero_less_Suc)
  have "\<forall>i<n. \<not> gameOver (steps rnd i (step rnd g FIXED_DT))
      \<and> totalTime (steps rnd i (step rnd g FIXED_DT)) < MAX_TIME"
    using Suc.prems by (metis Suc_less_eq steps.simps(2))
  from Suc.IH [OF this] now show ?case
    by (subst run_loop.simps) simp
qed

lemma run_loop_fresh:
  assumes "totalTime g = 0"
  shows "\<exists>n\<le>1801. run_loop rnd g = Some (steps rnd n g)
     \<and> (gameOver (steps rnd n g) \<or> MAX_TIME \<le> totalTime (steps rnd n g))
     \<and> (\<forall>i<n. \<not> gameOver (steps rnd i g) \<and> totalTime (steps rnd i g) < MAX_TIME)
     \<and> totalTime (steps rnd n g) \<le> 8448940550931405 / 281474976710656"
proof -
  let ?stop = "\<lambda>n. gameOver (steps rnd n g) \<or> MAX_TIME \<le> totalTime (steps rnd n g)"
  have "?stop 1801"
    by (simp add: totalTime_steps assms elapsed_1801 MAX_TIME_def)
  define m where "m = (LEAST n. ?stop n)"
  have stop: "?stop m" unfolding m_def by (rule LeastI [of ?stop, OF \<open>?stop 1801\<close>])
  have le: "m \<le> 1801" unfolding m_def by (rule Least_le [of ?stop, OF \<open>?stop 1801\<close>])
  have before: "\<forall>i<m. \<not> gameOver (steps rnd i g) \<and> totalTime (steps rnd i g) < MAX_TIME"
    unfolding m_def using not_less_Least [of _ ?stop] by (auto simp: not_le)
  have "run_loop rnd g = run_loop rnd (steps rnd m g)"
    using before by (rule run_loop_unroll)
  also have "\<dots> = Some (steps rnd m g)"
    using stop by (rule run_loop_exit)
  finally have "run_loop rnd g = Some (steps rnd m g)" .
  moreover have "totalTime (steps rnd m g) \<le> 8448940550931405 / 281474976710656"
    using elapsed_bound(1) [OF le] by (simp add: totalTime_steps assms)
  ultimately show ?thesis using stop le before by blast
qed

section \<open>The example episode\<close>

lemmas game_eval =
  step_def step_collision_def step_obstacles_def step_spawn_def step_brain_def
  step_physics_def step_time_def wantsJump_def policy_output_def normalizedDist_def
  normalizedHeight_def distToNext_def nextObstacle_def collidesWith_def isOffScreen_def
  update_def new_Obstacle_def example_delay js_add_def binary64_numeral round_half_even_def
  obstacleSpeed_def obstacleSize_w_def obstacleSize_h_def new_Game_def CANVAS_WIDTH_def
  CANVAS_HEIGHT_def js_index_def core_def resting_def travelled_def
  example_genome_def Let_def

lemma core_time: "core (step_time dt g) = core g"
  by (simp add: core_def step_time_def)

lemma core_physics: "core (step_physics dt g) = step_physics dt (core g)"
  by (simp add: core_def step_physics_def Let_def)

lemma nextObstacle_core:
  "nextObstacle (g\<lparr>totalTime := t, randomCalls := k\<rparr>) = nextObstacle g"
  by (simp add: nextObstacle_def)

lemma inputs_core:
  "normalizedDist (g\<lparr>totalTime := t, randomCalls := k\<rparr>) = normalizedDist g"
  "normalizedHeight (g\<lparr>totalTime := t, randomCalls := k\<rparr>) = normalizedHeight g"
  by (simp_all add: normalizedDist_def normalizedHeight_def distToNext_def nextObstacle_core
      split: option.split)

lemma policy_output_core:
  "policy_output (g\<lparr>totalTime := t, randomCalls := k\<rparr>) = policy_output g"
  by (simp add: policy_output_def inputs_core split: option.split)

lemma wantsJump_core: "wantsJump (core g) = wantsJump g"
  by (simp add: core_def wantsJump_def policy_output_core)

lemma core_brain: "core (step_brain g) = step_brain (core g)"
proof (cases "wantsJump g \<and> grounded (player g)")
  case True
  then have "wantsJump (core g) \<and> grounded (player (core g))"
    by (simp add: wantsJump_core) (simp add: core_def)
  with True show ?thesis by (simp add: step_brain_def) (simp add: core_def)
next
  case False
  then have "\<not> (wantsJump (core g) \<and> grounded (player (core g)))"
    by (simp add: wantsJump_core) (simp add: core_def)
  with False show ?thesis unfolding step_brain_def by (simp only: if_False)
qed

lemma core_spawn: "core (step_spawn example_rnd dt g) = core (step_spawn example_rnd dt (core g))"
  by (simp add: core_def step_spawn_def example_delay Let_def)

lemma core_obstacles: "core (step_obstacles dt g) = step_obstacles dt (core g)"
  by (simp add: core_def step_obstacles_def)

lemma core_collision: "core (step_collision g) = step_collision (core g)"
  by (simp add: core_def step_collision_def)

lemma core_step: "core (step example_rnd g dt) = core (step example_rnd (core g) dt)"
proof -
  have "core (step example_rnd h dt)
      = step_collision (step_obstacles dt (core (step_spawn example_rnd dt
          (step_brain (step_physics dt (core h))))))" for h
  proof -
    have "core (step_spawn example_rnd dt (step_brain (step_physics dt (step_time dt h))))
        = core (step_spawn example_rnd dt (core (step_brain (step_physics dt (step_time dt h)))))"
      by (rule core_spawn)
    also have "core (step_brain (step_physics dt (step_time dt h)))
        = step_brain (step_physics dt (core h))"
      by (simp add: core_brain core_physics core_time)
    finally have "core (step_spawn example_rnd dt (step_brain (step_physics dt (step_time dt h))))
        = core (step_spawn example_rnd dt (step_brain (step_physics dt (core h))))"
      by (simp add: core_spawn [symmetric])
    then show ?thesis
      by (simp add: step_def core_collision core_obstacles)
  qed
  from this [of g] this [of "core g"] show ?thesis
    by (simp add: core_def)
qed

lemma core_steps: "core (steps example_rnd n g) = csteps example_rnd n (core g)"
proof (induction n arbitrary: g)
  case 0
  show ?case by simp
next
  case (Suc n)
  have "core (steps example_rnd (Suc n) g) = csteps example_rnd n (core (step example_rnd g FIXED_DT))"
    using Suc by simp
  also have "\<dots> = csteps example_rnd n (core (step example_rnd (core g) FIXED_DT))"
    by (subst core_step) simp
  finally show ?case by simp
qed

text \<open>No phase reads the clock, so the states without clock can be computed without it.\<close>

lemma core_step_without_clock:
  "core (step example_rnd g dt) =
     core (step_collision (step_obstacles dt (step_spawn example_rnd dt
       (step_brain (step_physics dt g)))))"
proof -
  have "core (step_spawn example_rnd dt (step_brain (step_physics dt (step_time dt g))))
      = core (step_spawn example_rnd dt (core (step_brain (step_physics dt (step_time dt g)))))"
    by (rule core_spawn)
  also have "core (step_brain (step_physics dt (step_time dt g)))
      = core (step_brain (step_physics dt g))"
    by (simp add: core_brain core_physics core_time)
  also have "core (step_spawn example_rnd dt (core (step_brain (step_physics dt g))))
      = core (step_spawn example_rnd dt (step_brain (step_physics dt g)))"
    by (rule core_spawn [symmetric])
  finally show ?thesis
    by (simp add: step_def core_collision core_obstacles)
qed

lemma csteps_numeral:
  "csteps example_rnd (numeral m) g =
     csteps example_rnd (pred_numeral m)
       (core (step_collision (step_obstacles FIXED_DT (step_spawn example_rnd FIXED_DT
          (step_brain (step_physics FIXED_DT g))))))"
  by (simp add: numeral_eq_Suc core_step_without_clock)

lemma csteps_add: "csteps rnd (m + n) g = csteps rnd n (csteps rnd m g)"
  by (induction m arbitrary: g) simp_all

lemma period_1:
  "csteps example_rnd 74 (core (new_Game example_rnd example_genome 0)) = resting [travelled 1]"
  by (simp add: csteps_numeral game_eval FIXED_DT_value)

lemma period_2:
  "csteps example_rnd 74 (resting [travelled 1]) = resting [travelled 75, travelled 1]"
  by (simp add: csteps_numeral game_eval FIXED_DT_value)

lemma period_3:
  "csteps example_rnd 74 (resting [travelled 75, travelled 1])
     = resting [travelled 149, travelled 75, travelled 1]"
  by (simp add: csteps_numeral game_eval FIXED_DT_value)

lemma period_4:
  "csteps example_rnd 74 (resting [travelled 149, travelled 75, travelled 1])
     = resting [travelled 149, travelled 75, travelled 1]"
  by (simp add: csteps_numeral game_eval FIXED_DT_value)

lemma passing_obstacle:
  "normalizedDist (step_physics FIXED_DT (step_time FIXED_DT
      (csteps example_rnd 24 (resting [travelled 75, travelled 1]))))
     = - (72057594037927771 / 23058430092136939520)"
  by (simp add: csteps_numeral game_eval FIXED_DT_value)

lemma core_resting [simp]: "core (resting obs) = resting obs"
  by (simp add: core_def resting_def Let_def)

lemma gameOver_core [simp]: "gameOver (core g) = gameOver g"
  by (simp add: core_def)

lemma gameOver_resting [simp]: "\<not> gameOver (resting obs)"
  by (simp add: resting_def new_Game_def Let_def)

lemma example_periodic:
  "core (steps example_rnd (222 + 74 * m) (new_Game example_rnd example_genome 0))
     = resting [travelled 149, travelled 75, travelled 1]"
proof (induction m)
  case 0
  have "csteps example_rnd (74 + 74 + 74) (core (new_Game example_rnd example_genome 0))
      = resting [travelled 149, travelled 75, travelled 1]"
    by (simp only: csteps_add period_1 period_2 period_3)
  then show ?case by (simp add: core_steps)
next
  case (Suc m)
  have "steps example_rnd (222 + 74 * Suc m) (new_Game example_rnd example_genome 0)
      = steps example_rnd 74 (steps example_rnd (222 + 74 * m) (new_Game example_rnd example_genome 0))"
    using steps_add [of example_rnd "222 + 74 * m" 74] by (simp add: add.commute add.left_commute)
  then show ?case
    by (simp only: core_steps [of 74] Suc period_4)
qed

lemma example_never_over:
  "\<not> gameOver (steps example_rnd n (new_Game example_rnd example_genome 0))"
proof
  assume "gameOver (steps example_rnd n (new_Game example_rnd example_genome 0))"
  then have "gameOver (steps example_rnd (222 + 74 * n) (new_Game example_rnd example_genome 0))"
    by (rule gameOver_steps_mono) simp
  then have "gameOver (core (steps example_rnd (222 + 74 * n) (new_Game example_rnd example_genome 0)))"
    by simp
  then show False by (simp only: example_periodic gameOver_resting)
qed

text \<open>
  C5. Every episode started by the constructor ends: the loop of \<open>run\<close> is executed at
  most 1801 times, it stops on a collision or with an elapsed time of 30 seconds or more,
  and the time returned is at most that of 1801 increments.
\<close>

lemma run_terminates:
  "\<exists>n\<le>1801. run_loop rnd (new_Game rnd g k) = Some (steps rnd n (new_Game rnd g k))
     \<and> (gameOver (steps rnd n (new_Game rnd g k))
          \<or> MAX_TIME \<le> totalTime (steps rnd n (new_Game rnd g k)))
     \<and> totalTime (steps rnd n (new_Game rnd g k)) \<le> 8448940550931405 / 281474976710656"
proof -
  have "totalTime (new_Game rnd g k) = 0" by (simp add: new_Game_def)
  from run_loop_fresh [OF this, of rnd] show ?thesis by blast
qed

text \<open>
  C5, the code at the failing input. The returned time can exceed the cap of 30 seconds:
  the binary64 sum of 1800 increments of \<open>1/60\<close> is \<open>8444249301319561 / 2\<^sup>4\<^sup>8\<close>, just below
  30, so that an episode without a collision takes an 1801st step. The example episode
  (genome \<open>[-1, 0, 0.1]\<close>, every call of \<open>Math.random()\<close> returning \<open>0.25\<close>) has no
  collision; \<open>run\<close> executes 1801 steps and returns \<open>8448940550931405 / 2\<^sup>4\<^sup>8\<close>, which is
  \<open>30.016666666666243\<close>.
\<close>

theorem run_exceeds_time_cap:
  "run_loop example_rnd (new_Game example_rnd example_genome 0)
     = Some (steps example_rnd 1801 (new_Game example_rnd example_genome 0))
   \<and> run example_rnd (new_Game example_rnd example_genome 0)
       = Some (8448940550931405 / 281474976710656)
   \<and> MAX_TIME < 8448940550931405 / 281474976710656"
proof -
  let ?g = "new_Game example_rnd example_genome 0"
  have t0: "totalTime ?g = 0" by (simp add: new_Game_def)
  from run_loop_fresh [OF t0, of example_rnd] obtain n where
    n: "n \<le> 1801" "run_loop example_rnd ?g = Some (steps example_rnd n ?g)"
       "gameOver (steps example_rnd n ?g) \<or> MAX_TIME \<le> totalTime (steps example_rnd n ?g)"
    by blast
  from n(3) example_never_over have "MAX_TIME \<le> elapsed n 0"
    by (simp add: totalTime_steps t0)
  with elapsed_bound(2) [OF n(1)] have "\<not> n \<le> 1800" by auto
  with n(1) have "n = 1801" by simp
  with n(2) show ?thesis
    by (simp add: run_def totalTime_steps t0 elapsed_1801 MAX_TIME_def)
qed

lemma decision_input_core:
  "normalizedDist (step_physics dt (step_time dt g))
     = normalizedDist (step_physics dt (step_time dt (core g)))"
proof -
  have "normalizedDist h = normalizedDist (core h)" for h
    by (simp add: core_def inputs_core)
  then have "normalizedDist (step_physics dt (step_time dt h))
      = normalizedDist (step_physics dt (core h))" for h
    by (metis core_physics core_time)
  from this [of g] this [of "core g"] show ?thesis
    by (simp add: core_def)
qed

lemma normalizedDist_le_1: "normalizedDist g \<le> 1"
  by (simp add: normalizedDist_def)

lemma normalizedDist_sentinel:
  "nextObstacle g = None \<Longrightarrow> 0 < canvasWidth g \<Longrightarrow> canvasWidth g \<le> 999
     \<Longrightarrow> normalizedDist g = 1"
  by (simp add: normalizedDist_def distToNext_def)

lemma normalizedDist_nonneg_iff:
  "0 < canvasWidth g \<Longrightarrow> 0 \<le> normalizedDist g \<longleftrightarrow> 0 \<le> distToNext g"
  by (simp add: normalizedDist_def zero_le_divide_iff)

text \<open>
  C4, the code at the failing input. The normalized distance is capped at 1 but has no
  lower bound of 0: while the agent is above an obstacle whose left edge has passed the
  agent's left edge, the distance is negative. In the 173rd step of the example episode
  (genome \<open>[-1, 0, 0.1]\<close>, every call of \<open>Math.random()\<close> returning \<open>0.25\<close>) the value
  fed to the policy is \<open>-72057594037927771 / 23058430092136939520\<close>, about \<open>-0.003125\<close>; the
  episode is running then. (The value is at most 1 in every state, and it is 1 when there
  is no obstacle ahead, the playfield being at most 999 wide.)
\<close>

theorem normalized_distance_is_negative:
  "normalizedDist (step_physics FIXED_DT (step_time FIXED_DT
      (steps example_rnd 172 (new_Game example_rnd example_genome 0))))
     = - (72057594037927771 / 23058430092136939520)
   \<and> \<not> gameOver (steps example_rnd 172 (new_Game example_rnd example_genome 0))
   \<and> totalTime (steps example_rnd 172 (new_Game example_rnd example_genome 0)) < MAX_TIME"
proof (intro conjI)
  let ?g = "new_Game example_rnd example_genome 0"
  have "csteps example_rnd (74 + 74 + 24) (core ?g)
      = csteps example_rnd 24 (resting [travelled 75, travelled 1])"
    by (simp only: csteps_add period_1 period_2)
  then have "core (steps example_rnd 172 ?g) = csteps example_rnd 24 (resting [travelled 75, travelled 1])"
    by (simp add: core_steps)
  then show "normalizedDist (step_physics FIXED_DT (step_time FIXED_DT (steps example_rnd 172 ?g)))
     = - (72057594037927771 / 23058430092136939520)"
    by (subst decision_input_core) (simp only: passing_obstacle)
  show "\<not> gameOver (steps example_rnd 172 ?g)" by (rule example_never_over)
  show "totalTime (steps example_rnd 172 ?g) < MAX_TIME"
    using elapsed_bound(2) [of 172] by (simp add: totalTime_steps new_Game_def)
qed

section \<open>Properties of mutation\<close>

lemma and_then_Returns_iff:
  "and_then m f = Returns r \<longleftrightarrow> (\<exists>v. m = Returns v \<and> f v = Returns r)"
  by (cases m) auto

lemma valid_example_rnd: "valid_random example_rnd" "valid_random coin_rnd"
  by (auto simp: valid_random_def example_rnd_def coin_rnd_def)

lemma nonzero_random_found:
  "rnd j \<noteq> 0 \<Longrightarrow> k \<le> j
     \<Longrightarrow> \<exists>u k'. nonzero_random rnd k = Some (u, k') \<and> u \<noteq> 0 \<and> u = rnd (k' - 1)"
proof (induction "j - k" arbitrary: k)
  case 0
  then have "k = j" by simp
  with 0 show ?case by (subst nonzero_random.simps) simp
next
  case (Suc d)
  show ?case
  proof (cases "rnd k = 0")
    case True
    from Suc have "d = j - Suc k" and "Suc k \<le> j" by auto
    with Suc obtain u k' where
      "nonzero_random rnd (Suc k) = Some (u, k')" "u \<noteq> 0" "u = rnd (k' - 1)"
      by blast
    with True show ?thesis by (subst nonzero_random.simps) simp
  next
    case False
    then show ?thesis by (subst nonzero_random.simps) simp
  qed
qed

lemma nonzero_random_returns:
  assumes "valid_random rnd"
  shows "\<exists>u k'. nonzero_random rnd k = Some (u, k') \<and> 0 < u \<and> u < 1"
proof -
  from assms obtain j where "j \<ge> k" "rnd j \<noteq> 0"
    unfolding valid_random_def by blast
  from nonzero_random_found [of rnd j k, OF this(2) this(1)] obtain u k' where
    "nonzero_random rnd k = Some (u, k')" "u \<noteq> 0" "u = rnd (k' - 1)" by blast
  moreover from assms have "0 \<le> rnd (k' - 1)" "rnd (k' - 1) < 1"
    unfolding valid_random_def by auto
  ultimately show ?thesis by force
qed

lemma randn_returns:
  assumes "valid_random rnd"
  shows "\<exists>z k'. randn rnd k = Returns (z, k')"
proof -
  obtain u k1 where 1: "nonzero_random rnd k = Some (u, k1)"
    using nonzero_random_returns [OF assms] by blast
  obtain v k2 where 2: "nonzero_random rnd k1 = Some (v, k2)"
    using nonzero_random_returns [OF assms] by blast
  show ?thesis by (simp add: randn_def 1 2)
qed

lemma clamp2_in_range [simp]: "in_range (clamp2 v)"
  by (simp add: clamp2_def in_range_def)

lemma mutate_genes_returns:
  assumes "valid_random rnd"
  shows "\<exists>child k'. mutate_genes rnd rate g k = Returns (child, k')"
proof (induction g arbitrary: k)
  case Nil
  show ?case by simp
next
  case (Cons c cs)
  show ?case
  proof (cases "rnd k < rate")
    case True
    obtain z k1 where z: "randn rnd (Suc k) = Returns (z, k1)"
      using randn_returns [OF assms] by blast
    obtain cs' k2 where "mutate_genes rnd rate cs k1 = Returns (cs', k2)"
      using Cons by blast
    with True z show ?thesis by simp
  next
    case False
    obtain cs' k2 where "mutate_genes rnd rate cs (Suc k) = Returns (cs', k2)"
      using Cons by blast
    with False show ?thesis by simp
  qed
qed

lemma mutate_genes_shape:
  "mutate_genes rnd rate g k = Returns (child, k')
     \<Longrightarrow> list_all2 (\<lambda>c p. c = p \<or> (\<exists>z. c = clamp2 (p + z * 0.2))) child g"
proof (induction g arbitrary: k child k')
  case Nil
  then show ?case by simp
next
  case (Cons c cs)
  then show ?case
    by (auto simp: and_then_Returns_iff split: if_splits)
qed

lemma mutate_genes_length:
  "mutate_genes rnd rate g k = Returns (child, k') \<Longrightarrow> length child = length g"
  by (drule mutate_genes_shape) (simp add: list_all2_lengthD)

lemma mutate_genes_in_range:
  "mutate_genes rnd rate g k = Returns (child, k') \<Longrightarrow> list_all in_range g
     \<Longrightarrow> list_all in_range child"
proof (induction g arbitrary: k child k')
  case Nil
  then show ?case by simp
next
  case (Cons c cs)
  then show ?case
    by (auto simp: and_then_Returns_iff split: if_splits)
qed

lemma mutate_genes_no_gate:
  "\<forall>i. rate \<le> rnd i \<Longrightarrow> mutate_genes rnd rate g k = Returns (g, k + length g)"
proof (induction g arbitrary: k)
  case Nil
  then show ?case by simp
next
  case (Cons c cs)
  then have "\<not> rnd k < rate" by (simp add: not_less)
  with Cons show ?case by simp
qed

lemma mutate_genes_all_gates:
  "\<forall>i. rnd i < rate \<Longrightarrow> mutate_genes rnd rate g k = Returns (child, k')
     \<Longrightarrow> list_all in_range child"
proof (induction g arbitrary: k child k')
  case Nil
  then show ?case by simp
next
  case (Cons c cs)
  then show ?case
    by (auto simp: and_then_Returns_iff split: if_splits)
qed

lemma ga_child_returns:
  assumes "valid_random rnd"
  shows "\<exists>z1 z2 z3 k'. ga_child rnd parent \<sigma>1 \<sigma>2 \<sigma>b k =
     Returns ([clamp2 (parent ! 0 + z1 * \<sigma>1 * MUTATION_RATE),
               clamp2 (parent ! 1 + z2 * \<sigma>2 * MUTATION_RATE),
               clamp2 (parent ! 2 + z3 * \<sigma>b * MUTATION_RATE)], k')"
proof -
  obtain z1 k1 where 1: "randn rnd k = Returns (z1, k1)"
    using randn_returns [OF assms] by blast
  obtain z2 k2 where 2: "randn rnd k1 = Returns (z2, k2)"
    using randn_returns [OF assms] by blast
  obtain z3 k3 where 3: "randn rnd k2 = Returns (z3, k3)"
    using randn_returns [OF assms] by blast
  show ?thesis
    by (intro exI [of _ z1] exI [of _ z2] exI [of _ z3] exI [of _ k3])
      (simp add: ga_child_def 1 2 3)
qed

lemma ga_child_randn:
  assumes "valid_random rnd"
  shows "\<exists>z1 k1 z2 k2 z3 k3.
       randn rnd k = Returns (z1, k1) \<and> randn rnd k1 = Returns (z2, k2)
     \<and> randn rnd k2 = Returns (z3, k3)
     \<and> ga_child rnd parent \<sigma>1 \<sigma>2 \<sigma>b k =
         Returns ([clamp2 (parent ! 0 + z1 * \<sigma>1 * MUTATION_RATE),
                   clamp2 (parent ! 1 + z2 * \<sigma>2 * MUTATION_RATE),
                   clamp2 (parent ! 2 + z3 * \<sigma>b * MUTATION_RATE)], k3)"
proof -
  obtain z1 k1 where 1: "randn rnd k = Returns (z1, k1)"
    using randn_returns [OF assms] by blast
  obtain z2 k2 where 2: "randn rnd k1 = Returns (z2, k2)"
    using randn_returns [OF assms] by blast
  obtain z3 k3 where 3: "randn rnd k2 = Returns (z3, k3)"
    using randn_returns [OF assms] by blast
  have "ga_child rnd parent \<sigma>1 \<sigma>2 \<sigma>b k =
         Returns ([clamp2 (parent ! 0 + z1 * \<sigma>1 * MUTATION_RATE),
                   clamp2 (parent ! 1 + z2 * \<sigma>2 * MUTATION_RATE),
                   clamp2 (parent ! 2 + z3 * \<sigma>b * MUTATION_RATE)], k3)"
    by (simp add: ga_child_def 1 2 3)
  with 1 2 3 show ?thesis by blast
qed

lemma randn_coin: "randn coin_rnd k = Returns (- sqrt (2 * ln 2), Suc (Suc k))"
proof -
  have nz: "nonzero_random coin_rnd j = Some (1 / 2, Suc j)" for j
    by (subst nonzero_random.simps) (simp add: coin_rnd_def)
  have "ln (1 / 2 :: real) = - ln 2"
    by (simp add: ln_div)
  then show ?thesis by (simp add: randn_def nz)
qed

lemma noise_coin: "0 < sqrt (2 * ln 2)" "sqrt (2 * ln 2) \<le> 2"
proof -
  have "0 < ln (2 :: real)" by simp
  then show "0 < sqrt (2 * ln 2)" by simp
  have "ln (2 :: real) \<le> 2 - 1" by (rule ln_le_minus_one) simp
  then have "2 * ln (2 :: real) \<le> 2\<^sup>2" by simp
  then show "sqrt (2 * ln 2) \<le> 2" by (rule real_le_lsqrt [rotated 1]) simp
qed

text \<open>
  C3, as the claim states it, fails: \<open>mutateGenome\<close> clamps a gene only when it mutates
  it. With every draw at \<open>0.25\<close> and a mutation rate of \<open>0.1\<close> no gene is mutated, and a
  gene of value \<open>5\<close> is returned as it is.
\<close>

theorem mutateGenome_keeps_gene_out_of_range:
  "mutateGenome example_rnd [5, 0, 0] (1 / 10) 0 = Returns ([5, 0, 0], 3)
   \<and> \<not> list_all in_range [5, 0, 0]"
  by (simp add: mutateGenome_def example_rnd_def in_range_def)

text \<open>
  C3, amended. The genome returned by \<open>mutateGenome\<close> has every gene within \<open>[-2, 2]\<close>
  when the genes of the input are, for every mutation rate; and whatever the input when
  the rate is 1 or more, since every gene is mutated then. A child made by \<open>runGA\<close> has
  every gene within \<open>[-2, 2]\<close>, whatever its parent. Both return when the generator keeps
  its contract.
\<close>

theorem mutation_output_in_range:
  assumes "valid_random rnd"
  shows "(\<exists>child k'. mutateGenome rnd g mutationRate k = Returns (child, k')
            \<and> (list_all in_range g \<or> 1 \<le> mutationRate \<longrightarrow> list_all in_range child))
     \<and> (\<exists>child k'. ga_child rnd parent \<sigma>1 \<sigma>2 \<sigma>b k = Returns (child, k')
            \<and> list_all in_range child)"
proof
  obtain child k' where r: "mutate_genes rnd mutationRate g k = Returns (child, k')"
    using mutate_genes_returns [OF assms] by blast
  have "list_all in_range child" if "list_all in_range g"
    using r that by (rule mutate_genes_in_range)
  moreover have "list_all in_range child" if "1 \<le> mutationRate"
  proof -
    have "\<forall>i. rnd i < mutationRate"
      using assms that unfolding valid_random_def by (meson less_le_trans)
    then show ?thesis using r by (rule mutate_genes_all_gates)
  qed
  ultimately show "\<exists>child k'. mutateGenome rnd g mutationRate k = Returns (child, k')
      \<and> (list_all in_range g \<or> 1 \<le> mutationRate \<longrightarrow> list_all in_range child)"
    using r by (auto simp: mutateGenome_def)
next
  from ga_child_returns [OF assms, of parent \<sigma>1 \<sigma>2 \<sigma>b k]
  show "\<exists>child k'. ga_child rnd parent \<sigma>1 \<sigma>2 \<sigma>b k = Returns (child, k')
      \<and> list_all in_range child"
    by auto
qed

theorem mutation_output_in_range_witness:
  "(\<exists>child k'. mutateGenome coin_rnd [2, - 1, 0] 1 0 = Returns (child, k')
       \<and> list_all in_range child)
   \<and> (\<exists>child k'. ga_child coin_rnd [5, 0, 0] (1 / 10) (1 / 10) (1 / 10) 0 = Returns (child, k')
       \<and> list_all in_range child)"
  using mutation_output_in_range
    [OF valid_example_rnd(2), of "[2, - 1, 0]" 1 0 "[5, 0, 0]" "1 / 10" "1 / 10" "1 / 10"]
  by simp

text \<open>
  C2, as the claim states it, fails for \<open>runGA\<close>. Let every call of \<open>Math.random()\<close>
  return \<open>0.5\<close>, which is not below the mutation rate \<open>0.1\<close>: \<open>mutateGenome\<close> copies the
  parent, as the claim says, but the child that \<open>runGA\<close> makes of the same parent differs
  from it in every gene.
\<close>

theorem runGA_child_is_always_mutated:
  "MUTATION_RATE \<le> 1 / 2
   \<and> mutateGenome coin_rnd [0, 0, 0] MUTATION_RATE 0 = Returns ([0, 0, 0], 3)
   \<and> ga_child coin_rnd [0, 0, 0] (1 / 10) (1 / 10) (1 / 10) 0
       = Returns ([- (sqrt (2 * ln 2) / 100), - (sqrt (2 * ln 2) / 100),
                   - (sqrt (2 * ln 2) / 100)], 6)
   \<and> - (sqrt (2 * ln 2) / 100) \<noteq> (0 :: real)"
proof (intro conjI)
  show "MUTATION_RATE \<le> 1 / 2" by (simp add: MUTATION_RATE_def)
  have "mutate_genes coin_rnd MUTATION_RATE [0, 0, 0] 0
      = Returns ([0, 0, 0], 0 + length [0 :: real, 0, 0])"
    by (rule mutate_genes_no_gate) (simp add: coin_rnd_def MUTATION_RATE_def)
  then show "mutateGenome coin_rnd [0, 0, 0] MUTATION_RATE 0 = Returns ([0, 0, 0], 3)"
    by (simp add: mutateGenome_def)
  have "- 2 \<le> - (sqrt (2 * ln 2) / 100)" "- (sqrt (2 * ln 2) / 100) \<le> 2"
    using noise_coin by linarith+
  then have "clamp2 (- (sqrt (2 * ln 2) / 100)) = - (sqrt (2 * ln 2) / 100)"
    by (simp add: clamp2_def)
  then show "ga_child coin_rnd [0, 0, 0] (1 / 10) (1 / 10) (1 / 10) 0
       = Returns ([- (sqrt (2 * ln 2) / 100), - (sqrt (2 * ln 2) / 100),
                   - (sqrt (2 * ln 2) / 100)], 6)"
    by (simp add: ga_child_def randn_coin MUTATION_RATE_def)
  show "- (sqrt (2 * ln 2) / 100) \<noteq> (0 :: real)"
    using noise_coin(1) by linarith
qed

section \<open>Properties of the replacement\<close>

lemma random_index:
  assumes "valid_random rnd" and "0 < n"
  shows "0 \<le> \<lfloor>rnd k * real n\<rfloor>" and "\<lfloor>rnd k * real n\<rfloor> < int n"
proof -
  from assms(1) have r: "0 \<le> rnd k" "rnd k < 1" unfolding valid_random_def by auto
  then have "0 \<le> rnd k * real n" by simp
  then show "0 \<le> \<lfloor>rnd k * real n\<rfloor>" by simp
  from r assms(2) have "rnd k * real n < 1 * real n"
    by (intro mult_strict_right_mono) simp_all
  then have "rnd k * real n < of_int (int n)" by simp
  then show "\<lfloor>rnd k * real n\<rfloor> < int n" by (simp only: floor_less_iff)
qed

lemma js_at_random:
  assumes "valid_random rnd" and "0 < n" and "n \<le> length xs"
  shows "\<exists>x. js_at xs \<lfloor>rnd k * real n\<rfloor> = Some x"
proof -
  from random_index [OF assms(1,2), of k] assms(3)
  have "0 \<le> \<lfloor>rnd k * real n\<rfloor>" "\<lfloor>rnd k * real n\<rfloor> < int (length xs)" by auto
  then show ?thesis by (simp add: js_at_def)
qed

lemma breed_fill_returns:
  assumes "valid_random rnd" and "elites \<noteq> []"
  shows "\<exists>pop k'. breed_fill n rnd elites rate acc k = Returns (pop, k')
     \<and> take (length acc) pop = acc \<and> length pop = length acc + n"
proof (induction n arbitrary: acc k)
  case 0
  show ?case by simp
next
  case (Suc n)
  from assms(2) have "0 < length elites" by simp
  from js_at_random [OF assms(1) this, of elites k] obtain parent where
    p: "js_at elites \<lfloor>rnd k * real (length elites)\<rfloor> = Some parent" by auto
  obtain child k1 where c: "mutateGenome rnd (genome parent) rate (Suc k) = Returns (child, k1)"
    using mutate_genes_returns [OF assms(1)] unfolding mutateGenome_def by blast
  from Suc [of "acc @ [child]" k1] obtain pop k' where
    r: "breed_fill n rnd elites rate (acc @ [child]) k1 = Returns (pop, k')"
      "take (length (acc @ [child])) pop = acc @ [child]"
      "length pop = length (acc @ [child]) + n" by blast
  from r(2) have "take (length acc) pop = acc"
    by (metis append_eq_conv_conj length_append take_take min.cobounded1 min_def le_add1)
  with p c r show ?case by simp
qed


lemma length_sort_by_fitness [simp]: "length (sort_by_fitness scored) = length scored"
  by (simp add: sort_by_fitness_def)

lemma sort_by_fitness_Nil [simp]: "sort_by_fitness scored = [] \<longleftrightarrow> scored = []"
  using length_sort_by_fitness [of scored] by (metis length_0_conv)

lemma elite_count_swarm:
  "10 \<le> n \<Longrightarrow> 0 < nat \<lfloor>real n * 0.1\<rfloor>" "nat \<lfloor>real n * 0.1\<rfloor> \<le> n"
proof -
  have "\<lfloor>real n * 0.1\<rfloor> = int (n div 10)"
    using floor_divide_of_nat_eq [of n 10, where ?'a = real] by simp
  then have e: "nat \<lfloor>real n * 0.1\<rfloor> = n div 10" by simp
  show "10 \<le> n \<Longrightarrow> 0 < nat \<lfloor>real n * 0.1\<rfloor>" unfolding e by simp
  show "nat \<lfloor>real n * 0.1\<rfloor> \<le> n" unfolding e by simp
qed

lemma elite_count_ga: "\<lfloor>real POP_SIZE * ELITE_FRACTION\<rfloor> = 5"
  by (simp add: POP_SIZE_def ELITE_FRACTION_def)

lemma swarm_next_population_returns:
  assumes "valid_random rnd" and "10 \<le> length scored"
  shows "\<exists>pop k'. swarm_next_population rnd scored rate target k = Returns (pop, k')
     \<and> take (nat \<lfloor>real (length scored) * 0.1\<rfloor>) pop
         = map genome (take (nat \<lfloor>real (length scored) * 0.1\<rfloor>) (sort_by_fitness scored))"
proof -
  let ?e = "nat \<lfloor>real (length scored) * 0.1\<rfloor>"
  let ?elites = "take ?e (sort_by_fitness scored)"
  have len: "length ?elites = ?e"
    using elite_count_swarm(2) [of "length scored"] by simp
  with elite_count_swarm(1) [OF assms(2)] have ne: "?elites \<noteq> []" by auto
  from assms(2) have ne2: "scored \<noteq> []" by auto
  from breed_fill_returns [OF assms(1) ne, of "target - length ?elites" rate "map genome ?elites" k]
  obtain pop k' where
    "breed_fill (target - length ?elites) rnd ?elites rate (map genome ?elites) k = Returns (pop, k')"
    "take (length (map genome ?elites)) pop = map genome ?elites" by blast
  with len ne2 show ?thesis
    by (simp add: swarm_next_population_def breedNextGeneration_def Let_def)
qed

lemma ga_fill_returns:
  assumes "valid_random rnd" and "0 < e" and "e \<le> length elites"
  shows "\<exists>pop k'. ga_fill n rnd elites (int e) s1 s2 sb acc k = Returns (pop, k')
     \<and> take (length acc) pop = acc \<and> length pop = length acc + n
     \<and> (\<forall>c \<in> set (drop (length acc) pop). length c = 3)"
proof (induction n arbitrary: acc k)
  case 0
  show ?case by simp
next
  case (Suc n)
  from js_at_random [OF assms, of k] obtain parent where
    p: "js_at elites \<lfloor>rnd k * real_of_int (int e)\<rfloor> = Some parent" by auto
  obtain z1 z2 z3 k1 where c: "ga_child rnd (genome parent) s1 s2 sb (Suc k) =
     Returns ([clamp2 (genome parent ! 0 + z1 * s1 * MUTATION_RATE),
               clamp2 (genome parent ! 1 + z2 * s2 * MUTATION_RATE),
               clamp2 (genome parent ! 2 + z3 * sb * MUTATION_RATE)], k1)"
    using ga_child_returns [OF assms(1)] by blast
  define child where "child = [clamp2 (genome parent ! 0 + z1 * s1 * MUTATION_RATE),
               clamp2 (genome parent ! 1 + z2 * s2 * MUTATION_RATE),
               clamp2 (genome parent ! 2 + z3 * sb * MUTATION_RATE)]"
  have lc: "length child = 3" by (simp add: child_def)
  from Suc [of "acc @ [child]" k1] obtain pop k' where
    r: "ga_fill n rnd elites (int e) s1 s2 sb (acc @ [child]) k1 = Returns (pop, k')"
      "take (length (acc @ [child])) pop = acc @ [child]"
      "length pop = length (acc @ [child]) + n"
      "\<forall>c \<in> set (drop (length (acc @ [child])) pop). length c = 3" by blast
  from r(2) have pre: "take (length acc) pop = acc"
    by (metis append_eq_conv_conj length_append take_take min.cobounded1 min_def le_add1)
  from r(2) have "pop = (acc @ [child]) @ drop (length (acc @ [child])) pop"
    by (metis append_take_drop_id)
  then have "drop (length acc) pop = child # drop (length (acc @ [child])) pop"
    by (metis append.assoc append_Cons append_Nil append_eq_conv_conj)
  with r(4) lc have "\<forall>c \<in> set (drop (length acc) pop). length c = 3" by simp
  with p c r pre show ?case by (simp add: child_def)
qed


lemma totalTime_new_Game [simp]: "totalTime (new_Game rnd g k) = 0"
  by (simp add: new_Game_def)

lemma evaluate_returns: "\<exists>s k'. evaluate rnd g k = Returns (s, k') \<and> genome s = g"
proof -
  from run_loop_fresh [of "new_Game rnd g k" rnd] obtain n where
    "run_loop rnd (new_Game rnd g k) = Some (steps rnd n (new_Game rnd g k))" by auto
  then show ?thesis by (simp add: evaluate_def)
qed

lemma evaluate_population_returns:
  "\<exists>scored k'. evaluate_population rnd pop k = Returns (scored, k') \<and> map genome scored = pop"
proof (induction pop arbitrary: k)
  case Nil
  show ?case by simp
next
  case (Cons g gs)
  obtain s k1 where e: "evaluate rnd g k = Returns (s, k1)" "genome s = g"
    using evaluate_returns by blast
  obtain ss k2 where "evaluate_population rnd gs k1 = Returns (ss, k2)" "map genome ss = gs"
    using Cons by blast
  with e show ?case by simp
qed

lemma next_population_returns:
  assumes "valid_random rnd" and "length ranked = POP_SIZE"
  shows "\<exists>newPop k'. next_population rnd ranked k = Returns (newPop, k')
     \<and> take (nat \<lfloor>real POP_SIZE * ELITE_FRACTION\<rfloor>) newPop
         = map genome (take (nat \<lfloor>real POP_SIZE * ELITE_FRACTION\<rfloor>) ranked)
     \<and> length newPop = POP_SIZE
     \<and> (\<forall>c \<in> set (drop (nat \<lfloor>real POP_SIZE * ELITE_FRACTION\<rfloor>) newPop). length c = 3)"
proof -
  let ?elites = "take 5 ranked"
  have len: "length ?elites = 5" using assms(2) by (simp add: POP_SIZE_def)
  have e5: "(0::nat) < 5" "5 \<le> length ?elites" using len by simp_all
  have ec: "nat \<lfloor>real POP_SIZE * ELITE_FRACTION\<rfloor> = 5"
    by (simp add: elite_count_ga)
  from ga_fill_returns [OF assms(1) e5, of "POP_SIZE - 5" _ _ _ "map genome ?elites" k]
  show ?thesis
    unfolding next_population_def Let_def ec elite_count_ga
    using len by (simp add: POP_SIZE_def)
qed

lemma generation_returns:
  assumes "valid_random rnd" and "length population = POP_SIZE"
  shows "\<exists>scored k1 newPop k2.
       evaluate_population rnd population k = Returns (scored, k1)
     \<and> map genome scored = population
     \<and> generation rnd population k = Returns (newPop, k2)
     \<and> take (nat \<lfloor>real POP_SIZE * ELITE_FRACTION\<rfloor>) newPop
         = map genome (take (nat \<lfloor>real POP_SIZE * ELITE_FRACTION\<rfloor>) (sort_by_fitness scored))
     \<and> length newPop = POP_SIZE
     \<and> (\<forall>c \<in> set (drop (nat \<lfloor>real POP_SIZE * ELITE_FRACTION\<rfloor>) newPop). length c = 3)"
proof -
  obtain scored k1 where
    e: "evaluate_population rnd population k = Returns (scored, k1)" "map genome scored = population"
    using evaluate_population_returns by blast
  from e(2) assms(2) have len: "length scored = POP_SIZE" by (metis length_map)
  then have ne: "scored \<noteq> []" by (auto simp: POP_SIZE_def)
  from len have "length (sort_by_fitness scored) = POP_SIZE" by simp
  from next_population_returns [OF assms(1) this, of k1] e ne show ?thesis
    by (auto simp: generation_def)
qed

lemma ga_loop_snoc:
  "ga_loop (Suc n) rnd population k =
     and_then (ga_loop n rnd population k) (\<lambda>(p, k'). generation rnd p k')"
proof (induction n arbitrary: population k)
  case 0
  show ?case by (cases "generation rnd population k") auto
next
  case (Suc n)
  show ?case
  proof (cases "generation rnd population k")
    case (Returns r)
    obtain a b where r: "r = (a, b)" by (cases r)
    have "ga_loop (Suc (Suc n)) rnd population k = ga_loop (Suc n) rnd a b"
      by (subst ga_loop.simps(2)) (simp add: Returns r del: ga_loop.simps)
    also have "\<dots> = and_then (ga_loop n rnd a b) (\<lambda>(p, k'). generation rnd p k')"
      by (rule Suc)
    also have "ga_loop n rnd a b = ga_loop (Suc n) rnd population k"
      by (subst ga_loop.simps(2)) (simp add: Returns r del: ga_loop.simps)
    finally show ?thesis .
  next
    case TypeError
    then show ?thesis by simp
  next
    case Diverges
    then show ?thesis by simp
  qed
qed

lemma length_init_population: "length (fst (init_population n rnd k)) = n"
  by (induction n arbitrary: k) (simp_all add: randGenome_def case_prod_beta)

lemma init_population_wellformed:
  "\<forall>g \<in> set (fst (init_population n rnd k)). length g = 3"
  by (induction n arbitrary: k) (simp_all add: randGenome_def case_prod_beta)

lemma ga_loop_returns:
  assumes "valid_random rnd" and "length population = POP_SIZE"
  shows "\<exists>p k'. ga_loop n rnd population k = Returns (p, k') \<and> length p = POP_SIZE"
proof (induction n)
  case 0
  show ?case using assms(2) by simp
next
  case (Suc n)
  then obtain p k1 where p: "ga_loop n rnd population k = Returns (p, k1)" "length p = POP_SIZE"
    by blast
  from generation_returns [OF assms(1) p(2), of k1] obtain newPop k2 where
    "generation rnd p k1 = Returns (newPop, k2)" "length newPop = POP_SIZE" by blast
  with p show ?case by (simp add: ga_loop_snoc del: ga_loop.simps)
qed

lemma set_sort_by_fitness [simp]: "set (sort_by_fitness scored) = set scored"
  by (simp add: sort_by_fitness_def)

lemma sort_by_fitness_best:
  assumes "sort_by_fitness scored = best # rest" and "s \<in> set scored"
  shows "fitness s \<le> fitness best"
proof -
  have "sorted (map (\<lambda>s. - fitness s) (sort_by_fitness scored))"
    by (simp add: sort_by_fitness_def)
  with assms(1) have "\<forall>x \<in> set rest. - fitness best \<le> - fitness x" by simp
  moreover from assms have "s = best \<or> s \<in> set rest"
    by (metis set_ConsD set_sort_by_fitness)
  ultimately show ?thesis by auto
qed

lemma generation_wellformed:
  assumes "valid_random rnd" and "length population = POP_SIZE"
    and "\<forall>g \<in> set population. length g = 3"
    and "generation rnd population k = Returns (newPop, k')"
  shows "\<forall>g \<in> set newPop. length g = 3"
proof -
  let ?e = "nat \<lfloor>real POP_SIZE * ELITE_FRACTION\<rfloor>"
  from generation_returns [OF assms(1,2), of k] assms(4) obtain scored where
    s: "map genome scored = population"
       "take ?e newPop = map genome (take ?e (sort_by_fitness scored))"
       "\<forall>c \<in> set (drop ?e newPop). length c = 3"
    by auto
  have "set (take ?e (sort_by_fitness scored)) \<subseteq> set scored"
    using set_take_subset [of ?e "sort_by_fitness scored"] by simp
  then have "set (take ?e newPop) \<subseteq> set population"
    unfolding s(2) using s(1) by auto
  with assms(3) have "\<forall>g \<in> set (take ?e newPop). length g = 3" by blast
  with s(3) show ?thesis
    by (metis Un_iff append_take_drop_id set_append)
qed

lemma ga_loop_wellformed:
  assumes "valid_random rnd" and "length population = POP_SIZE"
    and "\<forall>g \<in> set population. length g = 3"
    and "ga_loop n rnd population k = Returns (p, k')"
  shows "\<forall>g \<in> set p. length g = 3"
  using assms(4)
proof (induction n arbitrary: p k')
  case 0
  with assms(3) show ?case by simp
next
  case (Suc n)
  from ga_loop_returns [OF assms(1,2), of n k] obtain q k1 where
    q: "ga_loop n rnd population k = Returns (q, k1)" "length q = POP_SIZE" by blast
  with Suc.prems have "generation rnd q k1 = Returns (p, k')"
    by (simp add: ga_loop_snoc del: ga_loop.simps)
  from generation_wellformed [OF assms(1) q(2) Suc.IH [OF q(1)] this] show ?case .
qed


text \<open>
  C6. When the generator keeps its contract, \<open>runGA\<close> returns, and the genome it returns
  is the genome of the record ranked first in the last generation that was evaluated:
  the population that enters the last iteration is evaluated and ranked, its best record
  has the highest fitness of all, and the first genome of the population that replaces
  it, which is what \<open>runGA\<close> returns with no further evaluation, equals the genome of
  that record.
\<close>

theorem runGA_returns_elite_of_last_generation:
  assumes "valid_random rnd"
  shows "\<exists>population k1 scored k2 best rest.
       ga_loop (GENERATIONS - 1) rnd (fst (init_population POP_SIZE rnd k))
         (snd (init_population POP_SIZE rnd k)) = Returns (population, k1)
     \<and> evaluate_population rnd population k1 = Returns (scored, k2)
     \<and> map genome scored = population
     \<and> sort_by_fitness scored = best # rest
     \<and> (\<forall>s \<in> set scored. fitness s \<le> fitness best)
     \<and> runGA rnd k = Returns (Some (genome best))"
proof -
  let ?pop0 = "fst (init_population POP_SIZE rnd k)"
  let ?k0 = "snd (init_population POP_SIZE rnd k)"
  have len0: "length ?pop0 = POP_SIZE" by (rule length_init_population)
  from ga_loop_returns [OF assms len0, of "GENERATIONS - 1" ?k0] obtain population k1 where
    p: "ga_loop (GENERATIONS - 1) rnd ?pop0 ?k0 = Returns (population, k1)"
       "length population = POP_SIZE" by blast
  from generation_returns [OF assms p(2), of k1] obtain scored k2 newPop k3 where
    g: "evaluate_population rnd population k1 = Returns (scored, k2)"
       "map genome scored = population"
       "generation rnd population k1 = Returns (newPop, k3)"
       "take (nat \<lfloor>real POP_SIZE * ELITE_FRACTION\<rfloor>) newPop
         = map genome (take (nat \<lfloor>real POP_SIZE * ELITE_FRACTION\<rfloor>) (sort_by_fitness scored))"
       "length newPop = POP_SIZE" by blast
  from g(2) p(2) have "length (sort_by_fitness scored) = POP_SIZE" by (metis length_map length_sort_by_fitness)
  then obtain best rest where br: "sort_by_fitness scored = best # rest"
    by (cases "sort_by_fitness scored") (auto simp: POP_SIZE_def)
  from g(5) obtain first others where fo: "newPop = first # others"
    by (cases newPop) (auto simp: POP_SIZE_def)
  from g(4) have "first = genome best"
    by (simp add: elite_count_ga br fo)
  have "ga_loop GENERATIONS rnd ?pop0 ?k0 = ga_loop (Suc (GENERATIONS - 1)) rnd ?pop0 ?k0"
    by (simp add: GENERATIONS_def)
  also have "\<dots> = Returns (newPop, k3)"
    by (subst ga_loop_snoc, subst p(1)) (simp add: g(3))
  finally have "runGA rnd k = Returns (Some (genome best))"
    by (simp add: runGA_def case_prod_beta Let_def js_index_def fo \<open>first = genome best\<close>)
  moreover have "\<forall>s \<in> set scored. fitness s \<le> fitness best"
    using sort_by_fitness_best [OF br] by blast
  ultimately show ?thesis using p(1) g(1,2) br by blast
qed

theorem runGA_returns_elite_of_last_generation_witness:
  "\<exists>population k1 scored k2 best rest.
       ga_loop (GENERATIONS - 1) coin_rnd (fst (init_population POP_SIZE coin_rnd 0))
         (snd (init_population POP_SIZE coin_rnd 0)) = Returns (population, k1)
     \<and> evaluate_population coin_rnd population k1 = Returns (scored, k2)
     \<and> sort_by_fitness scored = best # rest
     \<and> runGA coin_rnd 0 = Returns (Some (genome best))"
  using runGA_returns_elite_of_last_generation [OF valid_example_rnd(2), of 0]
  by blast

lemma example_scored_sorted: "sort_by_fitness example_scored = example_scored"
  by (simp add: example_scored_def sort_by_fitness_def)

text \<open>
  C1, as the claim states it, fails: the number of elites is the floor of a tenth of the
  population size, not the ceiling. Of eleven ranked records with different genomes the
  visual trainer carries over one, not two: the second genome of the next generation is
  a child of the first record, not the genome of the second.
\<close>

theorem swarm_carries_floor_not_ceiling:
  "length example_scored = 11
   \<and> sort_by_fitness example_scored = example_scored
   \<and> nat \<lceil>real (length example_scored) * 0.1\<rceil> = 2
   \<and> swarm_next_population example_rnd example_scored (1 / 10) 11 0
       = Returns (replicate 11 [0, 0, 0], 40)
   \<and> take 2 (replicate 11 [0, 0, 0]) \<noteq> map genome (take 2 (sort_by_fitness example_scored))"
proof (intro conjI)
  show "length example_scored = 11" by (simp add: example_scored_def)
  show "sort_by_fitness example_scored = example_scored" by (rule example_scored_sorted)
  show "nat \<lceil>real (length example_scored) * 0.1\<rceil> = 2" by (simp add: example_scored_def)
  have gate: "\<forall>i. (1 / 10 :: real) \<le> example_rnd i" by (simp add: example_rnd_def)
  have child: "mutateGenome example_rnd [0, 0, 0] (1 / 10) j = Returns ([0, 0, 0], j + 3)" for j
    using mutate_genes_no_gate [OF gate, of "[0, 0, 0]" j] by (simp add: mutateGenome_def)
  have fill: "breed_fill n example_rnd [\<lparr>genome = [0, 0, 0], fitness = 30\<rparr>] (1 / 10) acc j
      = Returns (acc @ replicate n [0, 0, 0], j + 4 * n)" for n acc j
  proof (induction n arbitrary: acc j)
    case 0
    show ?case by simp
  next
    case (Suc n)
    have "js_at [\<lparr>genome = [0, 0, 0], fitness = 30\<rparr>]
        \<lfloor>example_rnd j * real (length [\<lparr>genome = [0 :: real, 0, 0], fitness = 30 :: real\<rparr>])\<rfloor>
          = Some \<lparr>genome = [0, 0, 0], fitness = 30\<rparr>"
      by (simp add: js_at_def example_rnd_def)
    then show ?case
      by (simp add: child Suc replicate_append_same)
  qed
  show "swarm_next_population example_rnd example_scored (1 / 10) 11 0
       = Returns (replicate 11 [0, 0, 0], 40)"
    using fill [of 10 "[[0, 0, 0]]" 0]
    by (simp add: swarm_next_population_def example_scored_sorted Let_def breedNextGeneration_def)
      (simp add: example_scored_def numeral_eq_Suc)
  show "take 2 (replicate 11 [0, 0, 0]) \<noteq> map genome (take 2 (sort_by_fitness example_scored))"
    by (simp add: example_scored_sorted) (simp add: example_scored_def numeral_eq_Suc)
qed

text \<open>
  C1, amended. The next generation begins with the genomes of the top
  \<open>floor(N \<times> 0.10)\<close> ranked records, gene for gene: in the visual trainer for every
  population of \<open>N \<ge> 10\<close> scored records, in \<open>runGA\<close> for its populations of 50, where
  five records are carried over. The next generation exists when the generator keeps
  its contract.
\<close>

theorem elites_carried_over:
  assumes "valid_random rnd"
  shows "(10 \<le> length scored \<longrightarrow>
       (\<exists>pop k'. swarm_next_population rnd scored mutationRate targetPopSize k = Returns (pop, k')
          \<and> take (nat \<lfloor>real (length scored) * 0.1\<rfloor>) pop
              = map genome (take (nat \<lfloor>real (length scored) * 0.1\<rfloor>) (sort_by_fitness scored))))
     \<and> (length population = POP_SIZE \<longrightarrow>
       (\<exists>scored k1 newPop k2.
            evaluate_population rnd population k = Returns (scored, k1)
          \<and> map genome scored = population
          \<and> generation rnd population k = Returns (newPop, k2)
          \<and> take (nat \<lfloor>real POP_SIZE * ELITE_FRACTION\<rfloor>) newPop
              = map genome (take (nat \<lfloor>real POP_SIZE * ELITE_FRACTION\<rfloor>) (sort_by_fitness scored))
          \<and> length newPop = POP_SIZE))
     \<and> nat \<lfloor>real POP_SIZE * ELITE_FRACTION\<rfloor> = 5"
proof (intro conjI impI)
  assume "10 \<le> length scored"
  from swarm_next_population_returns [OF assms this]
  show "\<exists>pop k'. swarm_next_population rnd scored mutationRate targetPopSize k = Returns (pop, k')
          \<and> take (nat \<lfloor>real (length scored) * 0.1\<rfloor>) pop
              = map genome (take (nat \<lfloor>real (length scored) * 0.1\<rfloor>) (sort_by_fitness scored))" .
next
  assume "length population = POP_SIZE"
  from generation_returns [OF assms this, of k]
  show "\<exists>scored k1 newPop k2.
            evaluate_population rnd population k = Returns (scored, k1)
          \<and> map genome scored = population
          \<and> generation rnd population k = Returns (newPop, k2)
          \<and> take (nat \<lfloor>real POP_SIZE * ELITE_FRACTION\<rfloor>) newPop
              = map genome (take (nat \<lfloor>real POP_SIZE * ELITE_FRACTION\<rfloor>) (sort_by_fitness scored))
          \<and> length newPop = POP_SIZE"
    by blast
next
  show "nat \<lfloor>real POP_SIZE * ELITE_FRACTION\<rfloor> = 5" by (simp add: elite_count_ga)
qed

theorem elites_carried_over_witness:
  "\<exists>pop k'. swarm_next_population coin_rnd example_scored (1 / 2) 11 0 = Returns (pop, k')
      \<and> take 1 pop = [[0, 0, 0]]"
proof -
  have "10 \<le> length example_scored" by (simp add: example_scored_def)
  moreover have "nat \<lfloor>real (length example_scored) * 0.1\<rfloor> = 1" by (simp add: example_scored_def)
  moreover have "map genome (take 1 (sort_by_fitness example_scored)) = [[0, 0, 0]]"
    by (simp add: example_scored_sorted) (simp add: example_scored_def)
  ultimately show ?thesis
    using elites_carried_over [OF valid_example_rnd(2), of example_scored "1 / 2" 11 0]
    by simp
qed

subsection \<open>The children of \<open>runGA\<close>\<close>

lemma ga_fill_children:
  assumes "valid_random rnd" and "0 < e" and "e \<le> length elites"
  shows "ga_fill n rnd elites (int e) s1 s2 sb acc k = Returns (pop, k')
     \<Longrightarrow> \<forall>c \<in> set (drop (length acc) pop). \<exists>j parent k''.
           js_at elites \<lfloor>rnd j * real_of_int (int e)\<rfloor> = Some parent
         \<and> ga_child rnd (genome parent) s1 s2 sb (Suc j) = Returns (c, k'')"
proof (induction n arbitrary: acc k)
  case 0
  then show ?case by simp
next
  case (Suc n)
  from js_at_random [OF assms, of k] obtain parent where
    p: "js_at elites \<lfloor>rnd k * real_of_int (int e)\<rfloor> = Some parent" by auto
  obtain child k1 where c: "ga_child rnd (genome parent) s1 s2 sb (Suc k) = Returns (child, k1)"
    using ga_child_returns [OF assms(1)] by blast
  from Suc.prems p c have f: "ga_fill n rnd elites (int e) s1 s2 sb (acc @ [child]) k1 = Returns (pop, k')"
    by simp
  from Suc.IH [OF f] have rest: "\<forall>c \<in> set (drop (Suc (length acc)) pop). \<exists>j parent k''.
           js_at elites \<lfloor>rnd j * real_of_int (int e)\<rfloor> = Some parent
         \<and> ga_child rnd (genome parent) s1 s2 sb (Suc j) = Returns (c, k'')"
    by simp
  from ga_fill_returns [OF assms, of n s1 s2 sb "acc @ [child]" k1] f
  have "take (length (acc @ [child])) pop = acc @ [child]" by auto
  then have "pop = (acc @ [child]) @ drop (length (acc @ [child])) pop"
    by (metis append_take_drop_id)
  then have "drop (length acc) pop = child # drop (Suc (length acc)) pop"
    by (metis append.assoc append_Cons append_Nil append_eq_conv_conj length_append_singleton)
  with rest p c show ?case by auto
qed

lemma next_population_children:
  assumes "valid_random rnd" and "length ranked = POP_SIZE"
  shows "\<exists>newPop k'. next_population rnd ranked k = Returns (newPop, k')
     \<and> length newPop = POP_SIZE
     \<and> (\<forall>c \<in> set (drop 5 newPop). \<exists>j parent k''.
           js_at (take 5 ranked) \<lfloor>rnd j * 5\<rfloor> = Some parent
         \<and> ga_child rnd (genome parent)
               (spread (map (\<lambda>e. genome e ! 0) (take 5 ranked)))
               (spread (map (\<lambda>e. genome e ! 1) (take 5 ranked)))
               (spread (map (\<lambda>e. genome e ! 2) (take 5 ranked))) (Suc j) = Returns (c, k''))"
proof -
  let ?elites = "take 5 ranked"
  have len: "length ?elites = 5" using assms(2) by (simp add: POP_SIZE_def)
  have e5: "(0::nat) < 5" "5 \<le> length ?elites" using len by simp_all
  have ec: "nat \<lfloor>real POP_SIZE * ELITE_FRACTION\<rfloor> = 5"
    by (simp add: elite_count_ga)
  from next_population_returns [OF assms, of k] obtain newPop k' where
    r: "next_population rnd ranked k = Returns (newPop, k')" "length newPop = POP_SIZE" by blast
  from r(1) have "ga_fill (POP_SIZE - length (map genome ?elites)) rnd ?elites (int 5)
      (spread (map (\<lambda>e. genome e ! 0) ?elites)) (spread (map (\<lambda>e. genome e ! 1) ?elites))
      (spread (map (\<lambda>e. genome e ! 2) ?elites)) (map genome ?elites) k = Returns (newPop, k')"
    unfolding next_population_def Let_def ec elite_count_ga by simp
  from ga_fill_children [OF assms(1) e5 this] len r show ?thesis
    by (intro exI [of _ newPop] exI [of _ k']) simp
qed

text \<open>
  C2, amended. In \<open>mutateGenome\<close> mutation is decided gene by gene by a uniform draw: a
  gene whose draw is below the mutation rate gets the value of \<open>randn\<close> times \<open>0.2\<close> added
  and is clamped to \<open>[-2, 2]\<close>, any other gene is copied; so every gene of the child is the
  parent's or a clamped noisy one, and with a mutation rate of 0 (or less) the child is
  its parent, gene for gene. In \<open>runGA\<close> no draw decides whether a gene is mutated: each
  of the 45 children of a generation is made of the genome of the elite that one draw
  picks, and its three genes are the clamped sums of the parent's gene and the value
  that \<open>randn\<close> returns next (three calls in a row, from the cursor after that draw), scaled
  by the spread of that gene among the five elites and by \<open>MUTATION_RATE\<close>.
\<close>

theorem mutation_is_gated_gene_by_gene:
  assumes "valid_random rnd"
  shows "(\<exists>child k'. mutateGenome rnd g mutationRate k = Returns (child, k')
            \<and> list_all2 (\<lambda>c p. c = p \<or> (\<exists>z. c = clamp2 (p + z * 0.2))) child g)
     \<and> mutateGenome rnd (p # ps) mutationRate k =
         (if rnd k < mutationRate
          then and_then (randn rnd (Suc k)) (\<lambda>(z, k1).
               and_then (mutateGenome rnd ps mutationRate k1) (\<lambda>(cs, k2).
               Returns (clamp2 (p + z * 0.2) # cs, k2)))
          else and_then (mutateGenome rnd ps mutationRate (Suc k)) (\<lambda>(cs, k2).
               Returns (p # cs, k2)))
     \<and> (mutationRate \<le> 0 \<longrightarrow> mutateGenome rnd g mutationRate k = Returns (g, k + length g))
     \<and> (\<exists>z1 k1 z2 k2 z3 k3.
           randn rnd k = Returns (z1, k1) \<and> randn rnd k1 = Returns (z2, k2)
         \<and> randn rnd k2 = Returns (z3, k3)
         \<and> ga_child rnd parent \<sigma>1 \<sigma>2 \<sigma>b k =
             Returns ([clamp2 (parent ! 0 + z1 * \<sigma>1 * MUTATION_RATE),
                       clamp2 (parent ! 1 + z2 * \<sigma>2 * MUTATION_RATE),
                       clamp2 (parent ! 2 + z3 * \<sigma>b * MUTATION_RATE)], k3))
     \<and> (length ranked = POP_SIZE \<longrightarrow>
         (\<exists>newPop k'. next_population rnd ranked k = Returns (newPop, k')
            \<and> length newPop = POP_SIZE
            \<and> (\<forall>c \<in> set (drop 5 newPop). \<exists>j parent k''.
                  js_at (take 5 ranked) \<lfloor>rnd j * 5\<rfloor> = Some parent
                \<and> ga_child rnd (genome parent)
                      (spread (map (\<lambda>e. genome e ! 0) (take 5 ranked)))
                      (spread (map (\<lambda>e. genome e ! 1) (take 5 ranked)))
                      (spread (map (\<lambda>e. genome e ! 2) (take 5 ranked))) (Suc j)
                    = Returns (c, k''))))"
proof (intro conjI)
  obtain child k' where r: "mutate_genes rnd mutationRate g k = Returns (child, k')"
    using mutate_genes_returns [OF assms] by blast
  with mutate_genes_shape [OF r]
  show "\<exists>child k'. mutateGenome rnd g mutationRate k = Returns (child, k')
      \<and> list_all2 (\<lambda>c p. c = p \<or> (\<exists>z. c = clamp2 (p + z * 0.2))) child g"
    by (auto simp: mutateGenome_def)
next
  show "mutateGenome rnd (p # ps) mutationRate k =
         (if rnd k < mutationRate
          then and_then (randn rnd (Suc k)) (\<lambda>(z, k1).
               and_then (mutateGenome rnd ps mutationRate k1) (\<lambda>(cs, k2).
               Returns (clamp2 (p + z * 0.2) # cs, k2)))
          else and_then (mutateGenome rnd ps mutationRate (Suc k)) (\<lambda>(cs, k2).
               Returns (p # cs, k2)))"
    by (simp add: mutateGenome_def)
next
  show "mutationRate \<le> 0 \<longrightarrow> mutateGenome rnd g mutationRate k = Returns (g, k + length g)"
  proof
    assume "mutationRate \<le> 0"
    then have "\<forall>i. mutationRate \<le> rnd i"
      using assms unfolding valid_random_def by (meson order_trans)
    then show "mutateGenome rnd g mutationRate k = Returns (g, k + length g)"
      by (simp add: mutateGenome_def mutate_genes_no_gate)
  qed
next
  show "\<exists>z1 k1 z2 k2 z3 k3.
           randn rnd k = Returns (z1, k1) \<and> randn rnd k1 = Returns (z2, k2)
         \<and> randn rnd k2 = Returns (z3, k3)
         \<and> ga_child rnd parent \<sigma>1 \<sigma>2 \<sigma>b k =
             Returns ([clamp2 (parent ! 0 + z1 * \<sigma>1 * MUTATION_RATE),
                       clamp2 (parent ! 1 + z2 * \<sigma>2 * MUTATION_RATE),
                       clamp2 (parent ! 2 + z3 * \<sigma>b * MUTATION_RATE)], k3)"
    by (rule ga_child_randn [OF assms])
next
  show "length ranked = POP_SIZE \<longrightarrow>
         (\<exists>newPop k'. next_population rnd ranked k = Returns (newPop, k')
            \<and> length newPop = POP_SIZE
            \<and> (\<forall>c \<in> set (drop 5 newPop). \<exists>j parent k''.
                  js_at (take 5 ranked) \<lfloor>rnd j * 5\<rfloor> = Some parent
                \<and> ga_child rnd (genome parent)
                      (spread (map (\<lambda>e. genome e ! 0) (take 5 ranked)))
                      (spread (map (\<lambda>e. genome e ! 1) (take 5 ranked)))
                      (spread (map (\<lambda>e. genome e ! 2) (take 5 ranked))) (Suc j)
                    = Returns (c, k'')))"
    using next_population_children [OF assms] by blast
qed

theorem mutation_is_gated_gene_by_gene_witness:
  "mutateGenome coin_rnd [1, - 1, 3] 0 7 = Returns ([1, - 1, 3], 10)
   \<and> mutateGenome coin_rnd [1] 1 0 = Returns ([clamp2 (1 + - sqrt (2 * ln 2) * 0.2)], 3)
   \<and> ga_child coin_rnd [0, 0, 0] (1 / 10) (1 / 10) (1 / 10) 0 =
       Returns ([clamp2 (0 + - sqrt (2 * ln 2) * (1 / 10) * MUTATION_RATE),
                 clamp2 (0 + - sqrt (2 * ln 2) * (1 / 10) * MUTATION_RATE),
                 clamp2 (0 + - sqrt (2 * ln 2) * (1 / 10) * MUTATION_RATE)], 6)"
proof (intro conjI)
  note inst = mutation_is_gated_gene_by_gene [OF valid_example_rnd(2)]
  have "(0 :: real) \<le> 0 \<longrightarrow>
      mutateGenome coin_rnd [1, - 1, 3] 0 7 = Returns ([1, - 1, 3], 7 + length [1 :: real, - 1, 3])"
    using inst [of "[1, - 1, 3]" 0 7] by blast
  then show "mutateGenome coin_rnd [1, - 1, 3] 0 7 = Returns ([1, - 1, 3], 10)" by simp
  have "mutateGenome coin_rnd (1 # []) 1 0 =
         (if coin_rnd 0 < 1
          then and_then (randn coin_rnd (Suc 0)) (\<lambda>(z, k1).
               and_then (mutateGenome coin_rnd [] 1 k1) (\<lambda>(cs, k2).
               Returns (clamp2 (1 + z * 0.2) # cs, k2)))
          else and_then (mutateGenome coin_rnd [] 1 (Suc 0)) (\<lambda>(cs, k2).
               Returns (1 # cs, k2)))"
    using inst [of _ 1 0 1 "[]"] by blast
  then show "mutateGenome coin_rnd [1] 1 0 = Returns ([clamp2 (1 + - sqrt (2 * ln 2) * 0.2)], 3)"
    by (simp add: coin_rnd_def [THEN fun_cong] randn_coin mutateGenome_def)
  from inst [of _ _ 0 _ _ "[0, 0, 0]" "1 / 10" "1 / 10" "1 / 10"] obtain z1 k1 z2 k2 z3 k3 where
    z: "randn coin_rnd 0 = Returns (z1, k1)" "randn coin_rnd k1 = Returns (z2, k2)"
       "randn coin_rnd k2 = Returns (z3, k3)"
       "ga_child coin_rnd [0, 0, 0] (1 / 10) (1 / 10) (1 / 10) 0 =
          Returns ([clamp2 ([0, 0, 0] ! 0 + z1 * (1 / 10) * MUTATION_RATE),
                    clamp2 ([0, 0, 0] ! 1 + z2 * (1 / 10) * MUTATION_RATE),
                    clamp2 ([0, 0, 0] ! 2 + z3 * (1 / 10) * MUTATION_RATE)], k3)"
    by blast
  from z(1-3) have "z1 = - sqrt (2 * ln 2)" "z2 = - sqrt (2 * ln 2)" "z3 = - sqrt (2 * ln 2)" "k3 = 6"
    by (simp_all add: randn_coin)
  with z(4) show "ga_child coin_rnd [0, 0, 0] (1 / 10) (1 / 10) (1 / 10) 0 =
       Returns ([clamp2 (0 + - sqrt (2 * ln 2) * (1 / 10) * MUTATION_RATE),
                 clamp2 (0 + - sqrt (2 * ln 2) * (1 / 10) * MUTATION_RATE),
                 clamp2 (0 + - sqrt (2 * ln 2) * (1 / 10) * MUTATION_RATE)], 6)"
    by simp
qed

end
